theory Spec2Isabelle
  imports Complex_Main "HOL-Library.Word" "HOL-Library.Char_ord" "HOL-Library.Signed_Division"
begin

section \<open>The Noot value runtime (clibs/noot.h)\<close>

text \<open>
  A shallow embedding of the C header \<^verbatim>\<open>noot.h\<close>. The platform is LP64 with IEEE-754
  doubles: \<^verbatim>\<open>long\<close> is a 64-bit two's complement word whose \<^verbatim>\<open>+\<close>, \<^verbatim>\<open>-\<close>, \<^verbatim>\<open>*\<close> wrap,
  \<^verbatim>\<open>double\<close> is a 64-bit pattern, \<^verbatim>\<open>uint8_t\<close> is an 8-bit word.

  Effects are explicit. The process state is a \<open>world\<close>: the text written to the
  standard output so far, and the diagnostic call stack. A call ends in one of three
  ways: it returns a value, it ends the process through \<^verbatim>\<open>exit(1)\<close> (the panic path),
  or it runs into behaviour the C language leaves undefined (a read outside a buffer,
  a null dereference, control leaving a non-void function without \<^verbatim>\<open>return\<close>, an
  integer division trap).
\<close>

subsection \<open>Data model\<close>

type_synonym long = "64 word"
type_synonym double = "64 word"
type_synonym uint8_t = "8 word"

text \<open>\<^verbatim>\<open>enum NootType\<close>, in the order of the source.\<close>

datatype NootType =
  NilT | BoolT | IntT | RealT | StringT | ListT | TreeT | FunctionT | ClosureT | ErrorT

text \<open>
  \<^verbatim>\<open>struct NootValue\<close>: the discriminant together with the active member of
  \<^verbatim>\<open>union NootData\<close>.
  The constructors keep the names of the enumeration with a suffix (\<open>T\<close> for a
  discriminant, \<open>V\<close> for a value), since \<open>Nil\<close>, \<open>List\<close> and others are names of HOL.
  \<^item> A \<^verbatim>\<open>NootString\<close> is the \<^verbatim>\<open>len\<close> bytes its pointer \<^verbatim>\<open>s\<close> addresses.
  \<^item> A function pointer is its address; a closure holds the address of its captures
    (never dereferenced by this header) and the address of its function.
  \<^item> The pointers the code tests against \<^verbatim>\<open>NULL\<close> (list head and tail, tree children)
    are options, \<open>None\<close> being \<^verbatim>\<open>NULL\<close>. The tree datum and the payload of an error are
    dereferenced without a test and are values.
\<close>

datatype NootValue =
    NilV
  | BoolV bool
  | IntV long
  | RealV double
  | StringV string
  | ListV "NootValue option" "NootValue option"
  | TreeV NootValue "NootValue option" "NootValue option"
  | FunctionV nat
  | ClosureV nat nat
  | ErrorV NootValue

fun type_of :: "NootValue \<Rightarrow> NootType" where
  "type_of NilV = NilT"
| "type_of (BoolV b) = BoolT"
| "type_of (IntV i) = IntT"
| "type_of (RealV r) = RealT"
| "type_of (StringV s) = StringT"
| "type_of (ListV h t) = ListT"
| "type_of (TreeV d l r) = TreeT"
| "type_of (FunctionV f) = FunctionT"
| "type_of (ClosureV c f) = ClosureT"
| "type_of (ErrorV e) = ErrorT"

text \<open>\<^verbatim>\<open>noot_type_names\<close>.\<close>

fun noot_type_names :: "NootType \<Rightarrow> string" where
  "noot_type_names NilT = ''nil''"
| "noot_type_names BoolT = ''bool''"
| "noot_type_names IntT = ''int''"
| "noot_type_names RealT = ''real''"
| "noot_type_names StringT = ''string''"
| "noot_type_names ListT = ''list''"
| "noot_type_names TreeT = ''tree''"
| "noot_type_names FunctionT = ''function''"
| "noot_type_names ClosureT = ''function''"
| "noot_type_names ErrorT = ''error''"

definition new_bool :: "bool \<Rightarrow> NootValue" where [simp]: "new_bool b = BoolV b"
definition new_int :: "long \<Rightarrow> NootValue" where [simp]: "new_int i = IntV i"
definition new_real :: "double \<Rightarrow> NootValue" where [simp]: "new_real r = RealV r"

definition NOOT_NIL :: NootValue where [simp]: "NOOT_NIL = NilV"
definition NOOT_TRUE :: NootValue where [simp]: "NOOT_TRUE = BoolV True"
definition NOOT_FALSE :: NootValue where [simp]: "NOOT_FALSE = BoolV False"

record world =
  stdout :: string
  call_stack :: "string list"

datatype 'a result = Returns 'a world | Exits world | Undefined

fun bind :: "'a result \<Rightarrow> ('a \<Rightarrow> world \<Rightarrow> 'b result) \<Rightarrow> 'b result" where
  "bind (Returns x w) f = f x w"
| "bind (Exits w) f = Exits w"
| "bind Undefined f = Undefined"

text \<open>
  The printer can recurse without end, so it runs on fuel: one unit per nested call,
  \<open>None\<close> when the fuel is used up before the call has ended.
\<close>

fun bind_opt ::
  "'a result option \<Rightarrow> ('a \<Rightarrow> world \<Rightarrow> 'b result option) \<Rightarrow> 'b result option" where
  "bind_opt None f = None"
| "bind_opt (Some (Returns x w)) f = f x w"
| "bind_opt (Some (Exits w)) f = Some (Exits w)"
| "bind_opt (Some Undefined) f = Some Undefined"

definition ret :: "'a \<Rightarrow> world \<Rightarrow> 'a result option" where
  "ret x w = Some (Returns x w)"

text \<open>\<^verbatim>\<open>printf\<close> of text already formatted: it is appended to the standard output.\<close>

definition put :: "string \<Rightarrow> world \<Rightarrow> world" where
  "put s w = w\<lparr>stdout := stdout w @ s\<rparr>"

text \<open>
  Reading \<^verbatim>\<open>args[i]\<close>: the argument array is the list of the values it holds, and a
  read past its end is undefined (\<open>None\<close>).
\<close>

definition read_arg :: "NootValue list \<Rightarrow> nat \<Rightarrow> NootValue option" where
  "read_arg args i = (if i < length args then Some (args ! i) else None)"

subsection \<open>IEEE-754 doubles\<close>

text \<open>
  A double is its 64-bit pattern: sign bit, 11 exponent bits, 52 fraction bits. Every
  finite double is an integer multiple of \<open>2\<^sup>-\<^sup>1\<^sup>0\<^sup>7\<^sup>4\<close>; \<open>d_mag\<close> is that multiple for the
  magnitude, so comparison and exact arithmetic are integer arithmetic. On an infinity
  \<open>d_mag\<close> is \<open>2\<^sup>2\<^sup>0\<^sup>9\<^sup>8\<close>, above every finite magnitude, which orders the infinities
  as IEEE does.
\<close>

definition d_sign :: "double \<Rightarrow> bool" where
  "d_sign d = (2 ^ 63 \<le> unat d)"

definition d_exp :: "double \<Rightarrow> nat" where
  "d_exp d = unat d div 2 ^ 52 mod 2048"

definition d_frac :: "double \<Rightarrow> nat" where
  "d_frac d = unat d mod 2 ^ 52"

definition d_isnan :: "double \<Rightarrow> bool" where
  "d_isnan d = (d_exp d = 2047 \<and> d_frac d \<noteq> 0)"

definition d_isinf :: "double \<Rightarrow> bool" where
  "d_isinf d = (d_exp d = 2047 \<and> d_frac d = 0)"

definition d_mag :: "double \<Rightarrow> nat" where
  "d_mag d = (if d_exp d = 0 then d_frac d else (2 ^ 52 + d_frac d) * 2 ^ (d_exp d - 1))"

definition d_int :: "double \<Rightarrow> int" where
  "d_int d = (if d_sign d then - int (d_mag d) else int (d_mag d))"

text \<open>The C comparisons \<^verbatim>\<open>==\<close>, \<^verbatim>\<open><\<close>, \<^verbatim>\<open>>\<close> on doubles: false whenever an operand is a NaN.\<close>

definition d_eq :: "double \<Rightarrow> double \<Rightarrow> bool" where
  "d_eq a b = (\<not> d_isnan a \<and> \<not> d_isnan b \<and> d_int a = d_int b)"

definition d_lt :: "double \<Rightarrow> double \<Rightarrow> bool" where
  "d_lt a b = (\<not> d_isnan a \<and> \<not> d_isnan b \<and> d_int a < d_int b)"

definition d_gt :: "double \<Rightarrow> double \<Rightarrow> bool" where
  "d_gt a b = (\<not> d_isnan a \<and> \<not> d_isnan b \<and> d_int a > d_int b)"

text \<open>
  Rounding to nearest, ties to even. \<open>round_half_even n d\<close> rounds the fraction
  \<open>n / d\<close> to a natural number. \<open>d_round s n d\<close> is the double nearest to the magnitude
  \<open>n / d\<close> (in units of \<open>2\<^sup>-\<^sup>1\<^sup>0\<^sup>7\<^sup>4\<close>) with sign \<open>s\<close>: the bit patterns of the non-negative
  doubles are monotone in the value, so the pattern is the shift count in the exponent
  field plus the rounded 53-bit significand, saturating at infinity.
\<close>

definition round_half_even :: "nat \<Rightarrow> nat \<Rightarrow> nat" where
  "round_half_even n d =
     (let q = n div d; r = n mod d
      in if 2 * r < d then q else if d < 2 * r then q + 1 else if even q then q else q + 1)"

function bit_length :: "nat \<Rightarrow> nat" where
  "bit_length n = (if n = 0 then 0 else Suc (bit_length (n div 2)))"
  by pat_completeness auto
termination
  by (relation "measure id") auto

declare bit_length.simps [simp del]

definition d_inf_bits :: nat where
  "d_inf_bits = 2047 * 2 ^ 52"

definition d_round :: "bool \<Rightarrow> nat \<Rightarrow> nat \<Rightarrow> double" where
  "d_round s n d =
     (let sh = bit_length (n div d) - 53;
          bits = min (sh * 2 ^ 52 + round_half_even n (d * 2 ^ sh)) d_inf_bits
      in of_nat (bits + (if s then 2 ^ 63 else 0)))"

definition d_zero :: "bool \<Rightarrow> double" where
  "d_zero s = of_nat (if s then 2 ^ 63 else 0)"

definition d_inf :: "bool \<Rightarrow> double" where
  "d_inf s = of_nat (d_inf_bits + (if s then 2 ^ 63 else 0))"

text \<open>The conversion of a \<^verbatim>\<open>long\<close> to \<^verbatim>\<open>double\<close> (the usual arithmetic conversion).\<close>

definition d_of_long :: "long \<Rightarrow> double" where
  "d_of_long i = d_round (sint i < 0) (nat \<bar>sint i\<bar> * 2 ^ 1074) 1"

text \<open>
  Arithmetic. A NaN operand is returned quieted (the first one if both are); an
  invalid operation gives the default NaN.
\<close>

definition d_default_nan :: double where
  "d_default_nan = 0xFFF8000000000000"

definition d_quiet :: "double \<Rightarrow> double" where
  "d_quiet d = (if d_frac d div 2 ^ 51 = 1 then d else d + 2 ^ 51)"

definition d_neg :: "double \<Rightarrow> double" where
  "d_neg d = d + 2 ^ 63"

definition d_add :: "double \<Rightarrow> double \<Rightarrow> double" where
  "d_add a b =
     (if d_isnan a then d_quiet a
      else if d_isnan b then d_quiet b
      else if d_isinf a then (if d_isinf b \<and> d_sign a \<noteq> d_sign b then d_default_nan else a)
      else if d_isinf b then b
      else let v = d_int a + d_int b
           in if v = 0 then d_zero (d_sign a \<and> d_sign b)
              else d_round (v < 0) (nat \<bar>v\<bar>) 1)"

definition d_sub :: "double \<Rightarrow> double \<Rightarrow> double" where
  "d_sub a b =
     (if d_isnan a then d_quiet a
      else if d_isnan b then d_quiet b
      else d_add a (d_neg b))"

definition d_mul :: "double \<Rightarrow> double \<Rightarrow> double" where
  "d_mul a b =
     (let s = (d_sign a \<noteq> d_sign b)
      in if d_isnan a then d_quiet a
         else if d_isnan b then d_quiet b
         else if d_isinf a \<or> d_isinf b then
           (if d_mag a = 0 \<or> d_mag b = 0 then d_default_nan
            else d_inf s)
         else d_round s (d_mag a * d_mag b) (2 ^ 1074))"

definition d_div :: "double \<Rightarrow> double \<Rightarrow> double" where
  "d_div a b =
     (let s = (d_sign a \<noteq> d_sign b)
      in if d_isnan a then d_quiet a
         else if d_isnan b then d_quiet b
         else if d_isinf a then
           (if d_isinf b then d_default_nan else d_inf s)
         else if d_isinf b then d_zero s
         else if d_mag b = 0 then
           (if d_mag a = 0 then d_default_nan else d_inf s)
         else d_round s (d_mag a * 2 ^ 1074) (d_mag b))"

text \<open>\<^verbatim>\<open>fmod\<close> of the C library: the remainder of the truncated quotient, exact, with the sign of the dividend.\<close>

definition fmod :: "double \<Rightarrow> double \<Rightarrow> double" where
  "fmod a b =
     (if d_isnan a then d_quiet a
      else if d_isnan b then d_quiet b
      else if d_isinf a \<or> d_mag b = 0 then d_default_nan
      else if d_isinf b then a
      else d_round (d_sign a) (d_mag a mod d_mag b) 1)"

subsection \<open>The C library's formatting\<close>

definition newline :: char where [simp]: "newline = CHR 0x0A"
definition NUL :: char where [simp]: "NUL = CHR 0x00"

definition digit :: "nat \<Rightarrow> char" where
  "digit n = ''0123456789'' ! n"

function show_nat :: "nat \<Rightarrow> string" where
  "show_nat n = (if n < 10 then [digit n] else show_nat (n div 10) @ [digit (n mod 10)])"
  by pat_completeness auto
termination
  by (relation "measure id") auto

declare show_nat.simps [simp del]

definition show_int :: "int \<Rightarrow> string" where
  "show_int i = (if i < 0 then CHR ''-'' # show_nat (nat (- i)) else show_nat (nat i))"

text \<open>
  \<^verbatim>\<open>printf("%d", x)\<close> with a \<^verbatim>\<open>long\<close> argument: the conversion reads an \<^verbatim>\<open>int\<close>, the low
  32 bits of the argument.
\<close>

definition printf_d :: "long \<Rightarrow> string" where
  "printf_d x = show_int (sint (ucast x :: 32 word))"

text \<open>
  \<^verbatim>\<open>sprintf(str, "%f", x)\<close>: six decimals, the exact value rounded to nearest (ties to
  even); the text for the special values is the one of glibc.
\<close>

definition sprintf_f :: "double \<Rightarrow> string" where
  "sprintf_f d =
     (if d_isnan d then (if d_sign d then ''-nan'' else ''nan'')
      else if d_isinf d then (if d_sign d then ''-inf'' else ''inf'')
      else let n = round_half_even (d_mag d * 10 ^ 6) (2 ^ 1074);
               frac = show_nat (n mod 10 ^ 6)
           in (if d_sign d then ''-'' else []) @ show_nat (n div 10 ^ 6) @ ''.''
              @ replicate (6 - length frac) CHR ''0'' @ frac)"

text \<open>
  \<^verbatim>\<open>printf("%*.*s", width, precision, s)\<close>: at most \<open>precision\<close> bytes of \<open>s\<close>, ending at the
  first NUL, padded with spaces on the left up to \<open>width\<close>.
\<close>

definition printf_field :: "nat \<Rightarrow> nat \<Rightarrow> string \<Rightarrow> string" where
  "printf_field width precision s =
     (let body = takeWhile (\<lambda>c. c \<noteq> NUL) (take precision s)
      in replicate (width - length body) CHR '' '' @ body)"

text \<open>\<^verbatim>\<open>sprintf(str, message, ...)\<close> for a format whose only conversions are \<^verbatim>\<open>%s\<close>.\<close>

fun sprintf_s :: "string \<Rightarrow> string list \<Rightarrow> string" where
  "sprintf_s (c # d # rest) as =
     (if c = CHR ''%'' \<and> d = CHR ''s'' then
        (case as of [] \<Rightarrow> sprintf_s rest [] | a # as' \<Rightarrow> a @ sprintf_s rest as')
      else c # sprintf_s (d # rest) as)"
| "sprintf_s cs as = cs"

subsection \<open>Panic\<close>

text \<open>
  \<^verbatim>\<open>noot_panic_impl\<close>: the message and a newline, then one \<^verbatim>\<open>at\<close> line per entry of the
  call stack from the last pushed to the first, then \<^verbatim>\<open>exit(1)\<close>. The second argument
  of \<open>print_trace\<close> is the loop index plus one.
\<close>

fun print_trace :: "string list \<Rightarrow> nat \<Rightarrow> world \<Rightarrow> world" where
  "print_trace stack 0 w = w"
| "print_trace stack (Suc i) w = print_trace stack i (put (''at '' @ stack ! i @ [newline]) w)"

definition noot_panic_impl :: "string \<Rightarrow> world \<Rightarrow> 'a result" where
  "noot_panic_impl message w =
     Exits (print_trace (call_stack w) (length (call_stack w)) (put (message @ [newline]) w))"

text \<open>
  \<^verbatim>\<open>noot_binary_type_panic\<close> formats into \<^verbatim>\<open>char str[256]\<close>; a longer text would be
  written past the buffer.
\<close>

definition noot_binary_type_panic :: "string \<Rightarrow> NootType \<Rightarrow> NootType \<Rightarrow> world \<Rightarrow> 'a result" where
  "noot_binary_type_panic message a b w =
     (let str = sprintf_s message [noot_type_names a, noot_type_names b]
      in if length str < 256 then noot_panic_impl str w else Undefined)"

subsection \<open>The printer\<close>

text \<open>
  The \<^verbatim>\<open>Real\<close> case of \<^verbatim>\<open>noot_print\<close>. \<open>strip_loop\<close> is the loop
  \<^verbatim>\<open>while (str[i] == '0' || str[i] == '.') i--;\<close>: it has no lower bound, and reading
  \<^verbatim>\<open>str[-1]\<close> is undefined (\<open>None\<close>). The buffer is \<^verbatim>\<open>byte str[50]\<close>, so a text of 50
  or more characters is written past its end.
\<close>

function strip_loop :: "string \<Rightarrow> int \<Rightarrow> int option" where
  "strip_loop str i =
     (if i < 0 then None
      else if str ! nat i = CHR ''0'' \<or> str ! nat i = CHR ''.'' then strip_loop str (i - 1)
      else Some i)"
  by pat_completeness auto
termination
  by (relation "measure (\<lambda>(str, i). nat (i + 1))") auto

declare strip_loop.simps [simp del]

definition print_real :: "double \<Rightarrow> world \<Rightarrow> unit result" where
  "print_real r w =
     (let str = sprintf_f r
      in if 50 \<le> length str then Undefined
         else let i = int (length str)
              in if i = 0 then Returns () w
                 else (case strip_loop str (i - 1) of
                         None \<Rightarrow> Undefined
                       | Some j \<Rightarrow> Returns () (put (printf_field (nat (j + 1)) (nat (j + 1)) str) w)))"

text \<open>
  The \<^verbatim>\<open>String\<close> case: \<^verbatim>\<open>printf("%*.*s", len, len, s)\<close> passes a \<^verbatim>\<open>size_t\<close> where an
  \<^verbatim>\<open>int\<close> is read, which is the length only below \<open>2\<^sup>3\<^sup>1\<close>.
\<close>

definition print_string :: "string \<Rightarrow> world \<Rightarrow> unit result" where
  "print_string s w =
     (let len = length s
      in if len < 2 ^ 31 then Returns () (put (printf_field len len s) w) else Undefined)"

text \<open>
  The loop of the \<^verbatim>\<open>List\<close> case,
  \<^verbatim>\<open>while (curr->type == List && curr->data.List.head) { ... curr = curr->data.List.tail; }\<close>.
  \<open>pr\<close> is the recursive call \<^verbatim>\<open>noot_print(1, p)\<close>. The loop test dereferences \<open>cur\<close>, so
  a null tail is undefined. The loop returns \<open>printed\<close> and the value \<open>cur\<close> points to.
\<close>

fun print_list_loop ::
  "(NootValue \<Rightarrow> world \<Rightarrow> NootValue result option) \<Rightarrow> bool \<Rightarrow> NootValue \<Rightarrow> world
     \<Rightarrow> (bool \<times> NootValue) result option" where
  "print_list_loop pr printed (ListV (Some h) t) w =
     bind_opt (pr h (if printed then put '' '' w else w))
       (\<lambda>_ w'. case t of
                  None \<Rightarrow> Some Undefined
                | Some cur \<Rightarrow> print_list_loop pr True cur w')"
| "print_list_loop pr printed cur w = ret (printed, cur) w"

text \<open>
  The \<^verbatim>\<open>switch\<close> of \<^verbatim>\<open>noot_print\<close>, with \<open>pr\<close> for the recursive call. In the \<^verbatim>\<open>Tree\<close> case
  \<^verbatim>\<open>tree\<close> is the address of a local and never null, so the \<^verbatim>\<open>"_ _ _"\<close> branch is dead.
\<close>

fun print_switch ::
  "(NootValue \<Rightarrow> world \<Rightarrow> NootValue result option) \<Rightarrow> NootValue \<Rightarrow> world \<Rightarrow> unit result option" where
  "print_switch pr NilV w = ret () (put ''nil'' w)"
| "print_switch pr (BoolV b) w = ret () (put (if b then ''true'' else ''false'') w)"
| "print_switch pr (IntV i) w = ret () (put (printf_d i) w)"
| "print_switch pr (RealV r) w = Some (print_real r w)"
| "print_switch pr (StringV s) w = Some (print_string s w)"
| "print_switch pr (ListV h t) w =
     bind_opt (print_list_loop pr False (ListV h t) (put ''['' w))
       (\<lambda>(printed, cur) w1.
          bind_opt
            (if type_of cur \<noteq> NilT then
               bind_opt (pr cur (if printed then put '' '' w1 else w1)) (\<lambda>_. ret ())
             else ret () w1)
            (\<lambda>_ w2. ret () (put '']'' w2)))"
| "print_switch pr (TreeV d l r) w =
     bind_opt
       (case l of
          Some lv \<Rightarrow> bind_opt (pr lv (put ''{'' w)) (\<lambda>_. ret ())
        | None \<Rightarrow> ret () (put ''_'' (put ''{'' w)))
       (\<lambda>_ w1.
          bind_opt (pr d (put '' '' w1))
            (\<lambda>_ w2.
               bind_opt
                 (case r of
                    Some rv \<Rightarrow> bind_opt (pr rv (put '' '' w2)) (\<lambda>_. ret ())
                  | None \<Rightarrow> ret () (put ''_'' (put '' '' w2)))
                 (\<lambda>_ w3. ret () (put ''}'' w3))))"
| "print_switch pr (FunctionV f) w = ret () (put ''function'' w)"
| "print_switch pr (ClosureV c f) w = ret () (put ''function'' w)"
| "print_switch pr (ErrorV e) w = bind_opt (pr e (put ''Error: '' w)) (\<lambda>_. ret ())"

fun noot_print :: "nat \<Rightarrow> uint8_t \<Rightarrow> NootValue list \<Rightarrow> world \<Rightarrow> NootValue result option" where
  "noot_print 0 count args w = None"
| "noot_print (Suc fuel) count args w =
     (case (if 1 \<le> count then read_arg args 0 else Some NOOT_NIL) of
        None \<Rightarrow> Some Undefined
      | Some val \<Rightarrow>
          bind_opt (print_switch (\<lambda>v. noot_print fuel 1 [v]) val w)
            (\<lambda>_. ret (new_bool True)))"

definition noot_println :: "nat \<Rightarrow> uint8_t \<Rightarrow> NootValue list \<Rightarrow> world \<Rightarrow> NootValue result option" where
  "noot_println fuel count args w =
     bind_opt (noot_print fuel count args w) (\<lambda>res w'. ret res (put [newline] w'))"

definition noot_panic :: "nat \<Rightarrow> uint8_t \<Rightarrow> NootValue list \<Rightarrow> world \<Rightarrow> NootValue result option" where
  "noot_panic fuel count args w =
     bind_opt (noot_println fuel count args (put ([newline] @ ''Noot panicked:'' @ [newline]) w))
       (\<lambda>_ w'. Some (noot_panic_impl [] w'))"

subsection \<open>Arithmetic\<close>

text \<open>
  \<^verbatim>\<open>/\<close> and \<^verbatim>\<open>%\<close> on \<^verbatim>\<open>long\<close> truncate towards zero. A zero divisor, and the one overflow
  \<^verbatim>\<open>LONG_MIN / -1\<close>, are undefined in C (a trap on the usual hardware): \<open>None\<close>.
\<close>

definition LONG_MIN :: long where
  "LONG_MIN = 0x8000000000000000"

definition long_div :: "long \<Rightarrow> long \<Rightarrow> long option" where
  "long_div x y =
     (if y = 0 \<or> (x = LONG_MIN \<and> y = - 1) then None
      else Some (word_of_int (sint x sdiv sint y)))"

definition long_rem :: "long \<Rightarrow> long \<Rightarrow> long option" where
  "long_rem x y =
     (if y = 0 \<or> (x = LONG_MIN \<and> y = - 1) then None
      else Some (word_of_int (sint x smod sint y)))"

definition pure_result :: "'a option \<Rightarrow> world \<Rightarrow> 'a result" where
  "pure_result r w = (case r of None \<Rightarrow> Undefined | Some x \<Rightarrow> Returns x w)"

text \<open>
  The five operators share one shape. In the source the inner \<^verbatim>\<open>switch\<close> of \<^verbatim>\<open>case Int\<close>
  has no \<^verbatim>\<open>break\<close> after it: with a right operand that is neither \<^verbatim>\<open>Int\<close> nor \<^verbatim>\<open>Real\<close>
  control falls through into \<^verbatim>\<open>case Real\<close>, whose inner \<^verbatim>\<open>switch\<close> matches nothing either,
  and reaches the type panic after the outer \<^verbatim>\<open>switch\<close>.
\<close>

definition noot_add :: "NootValue \<Rightarrow> NootValue \<Rightarrow> world \<Rightarrow> NootValue result" where
  "noot_add a b w =
     (case a of
        IntV x \<Rightarrow>
          (case b of
             IntV y \<Rightarrow> Returns (new_int (x + y)) w
           | RealV y \<Rightarrow> Returns (new_real (d_add (d_of_long x) y)) w
           | _ \<Rightarrow> noot_binary_type_panic ''Attempted to add incompatible types %s and %s''
                    (type_of a) (type_of b) w)
      | RealV x \<Rightarrow>
          (case b of
             IntV y \<Rightarrow> Returns (new_real (d_add x (d_of_long y))) w
           | RealV y \<Rightarrow> Returns (new_real (d_add x y)) w
           | _ \<Rightarrow> noot_binary_type_panic ''Attempted to add incompatible types %s and %s''
                    (type_of a) (type_of b) w)
      | _ \<Rightarrow> noot_binary_type_panic ''Attempted to add incompatible types %s and %s''
               (type_of a) (type_of b) w)"

definition noot_sub :: "NootValue \<Rightarrow> NootValue \<Rightarrow> world \<Rightarrow> NootValue result" where
  "noot_sub a b w =
     (case a of
        IntV x \<Rightarrow>
          (case b of
             IntV y \<Rightarrow> Returns (new_int (x - y)) w
           | RealV y \<Rightarrow> Returns (new_real (d_sub (d_of_long x) y)) w
           | _ \<Rightarrow> noot_binary_type_panic ''Attempted to subtract incompatible types %s and %s''
                    (type_of a) (type_of b) w)
      | RealV x \<Rightarrow>
          (case b of
             IntV y \<Rightarrow> Returns (new_real (d_sub x (d_of_long y))) w
           | RealV y \<Rightarrow> Returns (new_real (d_sub x y)) w
           | _ \<Rightarrow> noot_binary_type_panic ''Attempted to subtract incompatible types %s and %s''
                    (type_of a) (type_of b) w)
      | _ \<Rightarrow> noot_binary_type_panic ''Attempted to subtract incompatible types %s and %s''
               (type_of a) (type_of b) w)"

definition noot_mul :: "NootValue \<Rightarrow> NootValue \<Rightarrow> world \<Rightarrow> NootValue result" where
  "noot_mul a b w =
     (case a of
        IntV x \<Rightarrow>
          (case b of
             IntV y \<Rightarrow> Returns (new_int (x * y)) w
           | RealV y \<Rightarrow> Returns (new_real (d_mul (d_of_long x) y)) w
           | _ \<Rightarrow> noot_binary_type_panic ''Attempted to subtract multiply types %s and %s''
                    (type_of a) (type_of b) w)
      | RealV x \<Rightarrow>
          (case b of
             IntV y \<Rightarrow> Returns (new_real (d_mul x (d_of_long y))) w
           | RealV y \<Rightarrow> Returns (new_real (d_mul x y)) w
           | _ \<Rightarrow> noot_binary_type_panic ''Attempted to subtract multiply types %s and %s''
                    (type_of a) (type_of b) w)
      | _ \<Rightarrow> noot_binary_type_panic ''Attempted to subtract multiply types %s and %s''
               (type_of a) (type_of b) w)"

definition noot_div :: "NootValue \<Rightarrow> NootValue \<Rightarrow> world \<Rightarrow> NootValue result" where
  "noot_div a b w =
     (case a of
        IntV x \<Rightarrow>
          (case b of
             IntV y \<Rightarrow> bind (pure_result (long_div x y) w) (\<lambda>q. Returns (new_int q))
           | RealV y \<Rightarrow> Returns (new_real (d_div (d_of_long x) y)) w
           | _ \<Rightarrow> noot_binary_type_panic ''Attempted to divide incompatible types %s and %s''
                    (type_of a) (type_of b) w)
      | RealV x \<Rightarrow>
          (case b of
             IntV y \<Rightarrow> Returns (new_real (d_div x (d_of_long y))) w
           | RealV y \<Rightarrow> Returns (new_real (d_div x y)) w
           | _ \<Rightarrow> noot_binary_type_panic ''Attempted to divide incompatible types %s and %s''
                    (type_of a) (type_of b) w)
      | _ \<Rightarrow> noot_binary_type_panic ''Attempted to divide incompatible types %s and %s''
               (type_of a) (type_of b) w)"

definition noot_rem :: "NootValue \<Rightarrow> NootValue \<Rightarrow> world \<Rightarrow> NootValue result" where
  "noot_rem a b w =
     (case a of
        IntV x \<Rightarrow>
          (case b of
             IntV y \<Rightarrow> bind (pure_result (long_rem x y) w) (\<lambda>r. Returns (new_int r))
           | RealV y \<Rightarrow> Returns (new_real (fmod (d_of_long x) y)) w
           | _ \<Rightarrow> noot_binary_type_panic ''Attempted to divide incompatible types %s and %s''
                    (type_of a) (type_of b) w)
      | RealV x \<Rightarrow>
          (case b of
             IntV y \<Rightarrow> Returns (new_real (fmod x (d_of_long y))) w
           | RealV y \<Rightarrow> Returns (new_real (fmod x y)) w
           | _ \<Rightarrow> noot_binary_type_panic ''Attempted to divide incompatible types %s and %s''
                    (type_of a) (type_of b) w)
      | _ \<Rightarrow> noot_binary_type_panic ''Attempted to divide incompatible types %s and %s''
               (type_of a) (type_of b) w)"

subsection \<open>Equality and ordering\<close>

text \<open>
  The byte loop of the \<^verbatim>\<open>String\<close> case of \<^verbatim>\<open>noot_eq_impl\<close>, entered with equal lengths.
\<close>

function eq_string_loop :: "string \<Rightarrow> string \<Rightarrow> nat \<Rightarrow> bool" where
  "eq_string_loop a b i =
     (if i < length a then (if a ! i \<noteq> b ! i then False else eq_string_loop a b (i + 1))
      else True)"
  by pat_completeness auto
termination
  by (relation "measure (\<lambda>(a, b, i). length a - i)") auto

declare eq_string_loop.simps [simp del]

text \<open>
  \<^verbatim>\<open>noot_eq_impl\<close>. Its \<^verbatim>\<open>switch\<close> has no \<^verbatim>\<open>List\<close> and no \<^verbatim>\<open>Tree\<close> case and no \<^verbatim>\<open>default\<close>:
  for these control reaches the end of the function without a \<^verbatim>\<open>return\<close>, and the value
  the caller then uses is undefined (\<open>None\<close>).
\<close>

fun noot_eq_impl :: "NootValue \<Rightarrow> NootValue \<Rightarrow> bool option" where
  "noot_eq_impl NilV b = Some (type_of b = NilT)"
| "noot_eq_impl (BoolV x) b = Some (case b of BoolV y \<Rightarrow> x = y | _ \<Rightarrow> False)"
| "noot_eq_impl (IntV x) b =
     Some (case b of IntV y \<Rightarrow> x = y | RealV y \<Rightarrow> d_eq (d_of_long x) y | _ \<Rightarrow> False)"
| "noot_eq_impl (RealV x) b =
     Some (case b of IntV y \<Rightarrow> d_eq x (d_of_long y) | RealV y \<Rightarrow> d_eq x y | _ \<Rightarrow> False)"
| "noot_eq_impl (StringV x) b =
     Some (case b of
             StringV y \<Rightarrow> if length x = length y then eq_string_loop x y 0 else False
           | _ \<Rightarrow> False)"
| "noot_eq_impl (FunctionV x) b = Some (case b of FunctionV y \<Rightarrow> x = y | _ \<Rightarrow> False)"
| "noot_eq_impl (ClosureV c x) b = Some (case b of ClosureV c' y \<Rightarrow> x = y | _ \<Rightarrow> False)"
| "noot_eq_impl (ErrorV x) b = (case b of ErrorV y \<Rightarrow> noot_eq_impl x y | _ \<Rightarrow> Some False)"
| "noot_eq_impl (ListV h t) b = None"
| "noot_eq_impl (TreeV d l r) b = None"

text \<open>
  The loop test of the \<^verbatim>\<open>String\<close> case of \<^verbatim>\<open>noot_lt_impl\<close> and \<^verbatim>\<open>noot_gt_impl\<close> is
  \<^verbatim>\<open>i < min(alen, blen)\<close> with \<^verbatim>\<open>#define min(a, b) a < b ? a : b\<close>, which the preprocessor
  expands to \<^verbatim>\<open>i < alen < blen ? alen : blen\<close>, that is
  \<^verbatim>\<open>((i < alen) < blen) ? alen : blen\<close>: the loop goes on while that length is not zero.
  A byte read at an index beyond either string is undefined (\<open>None\<close>).
\<close>

definition min_loop_test :: "nat \<Rightarrow> nat \<Rightarrow> nat \<Rightarrow> bool" where
  "min_loop_test i alen blen =
     ((if (if i < alen then 1 else 0) < blen then alen else blen) \<noteq> 0)"

function lt_string_loop :: "string \<Rightarrow> string \<Rightarrow> nat \<Rightarrow> bool option" where
  "lt_string_loop a b i =
     (if min_loop_test i (length a) (length b) then
        (if i < length a \<and> i < length b then
           (if a ! i \<noteq> b ! i then Some (a ! i < b ! i) else lt_string_loop a b (i + 1))
         else None)
      else Some (length a < length b))"
  by pat_completeness auto
termination
  by (relation "measure (\<lambda>(a, b, i). length a - i)") auto

function gt_string_loop :: "string \<Rightarrow> string \<Rightarrow> nat \<Rightarrow> bool option" where
  "gt_string_loop a b i =
     (if min_loop_test i (length a) (length b) then
        (if i < length a \<and> i < length b then
           (if a ! i \<noteq> b ! i then Some (a ! i > b ! i) else gt_string_loop a b (i + 1))
         else None)
      else Some (length a > length b))"
  by pat_completeness auto
termination
  by (relation "measure (\<lambda>(a, b, i). length a - i)") auto

declare lt_string_loop.simps [simp del]
declare gt_string_loop.simps [simp del]

definition compare_panic :: "NootValue \<Rightarrow> NootValue \<Rightarrow> world \<Rightarrow> 'a result" where
  "compare_panic a b w =
     noot_binary_type_panic ''Attempted to compare incompatible types %s and %s''
       (type_of a) (type_of b) w"

definition noot_lt_impl :: "NootValue \<Rightarrow> NootValue \<Rightarrow> world \<Rightarrow> bool result" where
  "noot_lt_impl a b w =
     (case a of
        BoolV x \<Rightarrow> (case b of BoolV y \<Rightarrow> Returns (x < y) w | _ \<Rightarrow> compare_panic a b w)
      | IntV x \<Rightarrow>
          (case b of
             IntV y \<Rightarrow> Returns (sint x < sint y) w
           | RealV y \<Rightarrow> Returns (d_lt (d_of_long x) y) w
           | _ \<Rightarrow> compare_panic a b w)
      | RealV x \<Rightarrow>
          (case b of
             IntV y \<Rightarrow> Returns (d_lt x (d_of_long y)) w
           | RealV y \<Rightarrow> Returns (d_lt x y) w
           | _ \<Rightarrow> compare_panic a b w)
      | StringV x \<Rightarrow>
          (case b of
             StringV y \<Rightarrow> pure_result (lt_string_loop x y 0) w
           | _ \<Rightarrow> compare_panic a b w)
      | FunctionV x \<Rightarrow> (case b of FunctionV y \<Rightarrow> Returns (x < y) w | _ \<Rightarrow> compare_panic a b w)
      | ClosureV c x \<Rightarrow>
          (case b of ClosureV c' y \<Rightarrow> Returns (x < y) w | _ \<Rightarrow> compare_panic a b w)
      | ErrorV x \<Rightarrow>
          (case b of
             ErrorV y \<Rightarrow> pure_result (noot_eq_impl x y) w
           | _ \<Rightarrow> compare_panic a b w)
      | _ \<Rightarrow> compare_panic a b w)"

definition noot_gt_impl :: "NootValue \<Rightarrow> NootValue \<Rightarrow> world \<Rightarrow> bool result" where
  "noot_gt_impl a b w =
     (case a of
        BoolV x \<Rightarrow> (case b of BoolV y \<Rightarrow> Returns (x > y) w | _ \<Rightarrow> compare_panic a b w)
      | IntV x \<Rightarrow>
          (case b of
             IntV y \<Rightarrow> Returns (sint x > sint y) w
           | RealV y \<Rightarrow> Returns (d_gt (d_of_long x) y) w
           | _ \<Rightarrow> compare_panic a b w)
      | RealV x \<Rightarrow>
          (case b of
             IntV y \<Rightarrow> Returns (d_gt x (d_of_long y)) w
           | RealV y \<Rightarrow> Returns (d_gt x y) w
           | _ \<Rightarrow> compare_panic a b w)
      | StringV x \<Rightarrow>
          (case b of
             StringV y \<Rightarrow> pure_result (gt_string_loop x y 0) w
           | _ \<Rightarrow> compare_panic a b w)
      | FunctionV x \<Rightarrow> (case b of FunctionV y \<Rightarrow> Returns (x > y) w | _ \<Rightarrow> compare_panic a b w)
      | ClosureV c x \<Rightarrow>
          (case b of ClosureV c' y \<Rightarrow> Returns (x > y) w | _ \<Rightarrow> compare_panic a b w)
      | ErrorV x \<Rightarrow>
          (case b of
             ErrorV y \<Rightarrow> pure_result (noot_eq_impl x y) w
           | _ \<Rightarrow> compare_panic a b w)
      | _ \<Rightarrow> compare_panic a b w)"

definition noot_eq :: "NootValue \<Rightarrow> NootValue \<Rightarrow> world \<Rightarrow> NootValue result" where
  "noot_eq a b w = bind (pure_result (noot_eq_impl a b) w) (\<lambda>e. Returns (new_bool e))"

definition noot_neq :: "NootValue \<Rightarrow> NootValue \<Rightarrow> world \<Rightarrow> NootValue result" where
  "noot_neq a b w = bind (pure_result (noot_eq_impl a b) w) (\<lambda>e. Returns (new_bool (\<not> e)))"

definition noot_lt :: "NootValue \<Rightarrow> NootValue \<Rightarrow> world \<Rightarrow> NootValue result" where
  "noot_lt a b w = bind (noot_lt_impl a b w) (\<lambda>l. Returns (new_bool l))"

text \<open>\<^verbatim>\<open>||\<close> evaluates its right operand only when the left one is false.\<close>

definition noot_le :: "NootValue \<Rightarrow> NootValue \<Rightarrow> world \<Rightarrow> NootValue result" where
  "noot_le a b w =
     bind (noot_lt_impl a b w)
       (\<lambda>l w1. bind (if l then Returns True w1 else pure_result (noot_eq_impl a b) w1)
                  (\<lambda>r. Returns (new_bool r)))"

definition noot_gt :: "NootValue \<Rightarrow> NootValue \<Rightarrow> world \<Rightarrow> NootValue result" where
  "noot_gt a b w = bind (noot_gt_impl a b w) (\<lambda>g. Returns (new_bool g))"

definition noot_ge :: "NootValue \<Rightarrow> NootValue \<Rightarrow> world \<Rightarrow> NootValue result" where
  "noot_ge a b w =
     bind (noot_gt_impl a b w)
       (\<lambda>g w1. bind (if g then Returns True w1 else pure_result (noot_eq_impl a b) w1)
                  (\<lambda>r. Returns (new_bool r)))"

subsection \<open>The variadic wrappers and primitives\<close>

text \<open>The macro \<^verbatim>\<open>bin_fn(f)\<close>, which defines \<^verbatim>\<open>f_fn\<close>, and its eleven uses.\<close>

definition bin_fn ::
  "(NootValue \<Rightarrow> NootValue \<Rightarrow> world \<Rightarrow> NootValue result) \<Rightarrow> uint8_t \<Rightarrow> NootValue list \<Rightarrow> world
     \<Rightarrow> NootValue result" where
  "bin_fn f count args w =
     (case (if 1 \<le> count then read_arg args 0 else Some NOOT_NIL) of
        None \<Rightarrow> Undefined
      | Some left \<Rightarrow>
          (case (if 2 \<le> count then read_arg args 1 else Some NOOT_NIL) of
             None \<Rightarrow> Undefined
           | Some right \<Rightarrow> f left right w))"

definition noot_add_fn where "noot_add_fn = bin_fn noot_add"
definition noot_sub_fn where "noot_sub_fn = bin_fn noot_sub"
definition noot_mul_fn where "noot_mul_fn = bin_fn noot_mul"
definition noot_div_fn where "noot_div_fn = bin_fn noot_div"
definition noot_rem_fn where "noot_rem_fn = bin_fn noot_rem"
definition noot_eq_fn where "noot_eq_fn = bin_fn noot_eq"
definition noot_neq_fn where "noot_neq_fn = bin_fn noot_neq"
definition noot_lt_fn where "noot_lt_fn = bin_fn noot_lt"
definition noot_le_fn where "noot_le_fn = bin_fn noot_le"
definition noot_gt_fn where "noot_gt_fn = bin_fn noot_gt"
definition noot_ge_fn where "noot_ge_fn = bin_fn noot_ge"

text \<open>
  \<^verbatim>\<open>noot_error\<close> never reads \<^verbatim>\<open>count\<close>: the new \<^verbatim>\<open>Error\<close> holds the pointer \<^verbatim>\<open>inner\<close> itself,
  so its payload is the value that pointer addresses, \<^verbatim>\<open>inner[0]\<close>. When the array has no
  entry there, the \<^verbatim>\<open>Error\<close> holds a pointer to no value; the data model has no such
  \<^verbatim>\<open>Error\<close>, and the result is undefined.
\<close>

definition noot_error :: "uint8_t \<Rightarrow> NootValue list \<Rightarrow> world \<Rightarrow> NootValue result" where
  "noot_error count inner w =
     (case read_arg inner 0 of None \<Rightarrow> Undefined | Some v \<Rightarrow> Returns (ErrorV v) w)"

definition noot_not :: "uint8_t \<Rightarrow> NootValue list \<Rightarrow> world \<Rightarrow> NootValue result" where
  "noot_not count args w =
     (case (if 1 \<le> count then read_arg args 0 else Some NOOT_NIL) of
        None \<Rightarrow> Undefined
      | Some val \<Rightarrow>
          (case val of
             BoolV b \<Rightarrow> Returns (new_bool (\<not> b)) w
           | _ \<Rightarrow> Returns (new_bool (type_of val = NilT)) w))"

text \<open>
  \<^verbatim>\<open>noot_is_true\<close> is the sum
  \<^verbatim>\<open>(val.type == Bool) * val.data.Bool + (val.type != Bool) * (val.type != Nil && val.type != Error)\<close>:
  the first factor of each product selects the boolean for a \<^verbatim>\<open>Bool\<close> and the test of
  the discriminant for every other value.
\<close>

definition noot_is_true :: "NootValue \<Rightarrow> bool" where
  "noot_is_true val =
     (case val of
        BoolV b \<Rightarrow> b
      | _ \<Rightarrow> type_of val \<noteq> NilT \<and> type_of val \<noteq> ErrorT)"

text \<open>\<^verbatim>\<open>noot_assert\<close>; \<^verbatim>\<open>args + 1\<close> is the argument array without its first entry.\<close>

definition noot_assert :: "nat \<Rightarrow> uint8_t \<Rightarrow> NootValue list \<Rightarrow> world \<Rightarrow> NootValue result option" where
  "noot_assert fuel count args w =
     (case (if 1 \<le> count then read_arg args 0 else Some NOOT_NIL) of
        None \<Rightarrow> Some Undefined
      | Some val \<Rightarrow>
          bind_opt
            (if \<not> noot_is_true val then
               bind_opt
                 (if 2 \<le> count then noot_panic fuel (count - 1) (drop 1 args) w
                  else noot_panic fuel count args w)
                 (\<lambda>_. ret ())
             else ret () w)
            (\<lambda>_. ret val))"

subsection \<open>Vocabulary of the properties\<close>

text \<open>
  The values on which \<^verbatim>\<open>noot_eq_impl\<close> has a case and compares a value equal to itself:
  every discriminant but \<^verbatim>\<open>List\<close> and \<^verbatim>\<open>Tree\<close>, a \<^verbatim>\<open>Real\<close> that is not a NaN, and an
  \<^verbatim>\<open>Error\<close> whose payload is such a value.
\<close>

fun self_equal_domain :: "NootValue \<Rightarrow> bool" where
  "self_equal_domain (RealV r) = (\<not> d_isnan r)"
| "self_equal_domain (ErrorV e) = self_equal_domain e"
| "self_equal_domain (ListV h t) = False"
| "self_equal_domain (TreeV d l r) = False"
| "self_equal_domain v = True"

text \<open>
  \<open>mk_list hs t\<close> is the list whose nodes hold the elements \<open>hs\<close> in order and whose last
  tail points to \<open>t\<close>. \<open>spaced printed ss\<close> is the texts \<open>ss\<close> separated by one space, with
  a leading space when something was printed before.
\<close>

fun mk_list :: "NootValue list \<Rightarrow> NootValue \<Rightarrow> NootValue" where
  "mk_list [] t = t"
| "mk_list (h # hs) t = ListV (Some h) (Some (mk_list hs t))"

fun spaced :: "bool \<Rightarrow> string list \<Rightarrow> string" where
  "spaced printed [] = []"
| "spaced printed (s # ss) = (if printed then '' '' else []) @ s @ spaced True ss"

section \<open>Properties\<close>

subsection \<open>Basic facts\<close>

lemma put_put: "put t (put s w) = put (s @ t) w"
  by (simp add: put_def)

lemma put_Nil: "put [] w = w"
  by (simp add: put_def)

lemma call_stack_put: "call_stack (put s w) = call_stack w"
  by (simp add: put_def)

lemma bind_opt_ret: "bind_opt (ret x w) f = f x w"
  by (simp add: ret_def)

lemma noot_print_no_args:
  "noot_print (Suc fuel) 0 args w = Some (Returns (BoolV True) (put ''nil'' w))"
  by (simp add: ret_def)

lemma noot_print_int:
  "noot_print (Suc fuel) 1 [IntV i] w = Some (Returns (BoolV True) (put (printf_d i) w))"
  by (simp add: read_arg_def ret_def)

lemma printf_d_small: "printf_d 1 = ''1''" "printf_d 2 = ''2''" "printf_d 3 = ''3''" "printf_d 4 = ''4''"
  by (simp_all add: printf_d_def show_int_def show_nat.simps digit_def)

text \<open>
  A list node whose head is null is printed by a call of \<^verbatim>\<open>noot_print\<close> on the same node:
  the call does not end, whatever the fuel.
\<close>

lemma noot_print_empty_node_diverges:
  "noot_print fuel 1 [ListV None t] w = None"
proof (induction fuel arbitrary: w)
  case 0
  then show ?case by simp
next
  case (Suc fuel)
  then show ?case
    by (simp add: read_arg_def bind_opt_ret)
qed

text \<open>More fuel does not change the result of a call that has ended.\<close>

lemma bind_opt_mono:
  assumes "bind_opt m f = Some r" "\<And>r. m = Some r \<Longrightarrow> m' = Some r"
    "\<And>x w r. f x w = Some r \<Longrightarrow> f' x w = Some r"
  shows "bind_opt m' f' = Some r"
proof (cases m)
  case None
  with assms(1) show ?thesis by simp
next
  case (Some a)
  with assms(2) have m': "m' = Some a" by simp
  from Some assms(1,3) show ?thesis
    unfolding m' by (cases a) auto
qed

lemma print_list_loop_mono:
  "(\<And>v w r. pr v w = Some r \<Longrightarrow> pr' v w = Some r) \<Longrightarrow>
   print_list_loop pr printed cur w = Some r \<Longrightarrow> print_list_loop pr' printed cur w = Some r"
proof (induction pr printed cur w arbitrary: r rule: print_list_loop.induct)
  case (1 pr printed h t w)
  note mono = "1.prems"(1)
  let ?f = "\<lambda>pr (u :: NootValue) w'.
    case t of None \<Rightarrow> Some Undefined | Some cur \<Rightarrow> print_list_loop pr True cur w'"
  have step: "?f pr' x w' = Some r'" if "?f pr x w' = Some r'" for x w' r'
    using that "1.IH" mono by (cases t) auto
  from "1.prems"(2)
  have "bind_opt (pr h (if printed then put '' '' w else w)) (?f pr) = Some r"
    by simp
  then have "bind_opt (pr' h (if printed then put '' '' w else w)) (?f pr') = Some r"
    by (rule bind_opt_mono) (use mono step in auto)
  then show ?case by simp
qed simp_all

lemma print_switch_mono:
  assumes mono: "\<And>v w r. pr v w = Some r \<Longrightarrow> pr' v w = Some r"
    and run: "print_switch pr val w = Some r"
  shows "print_switch pr' val w = Some r"
proof (cases val)
  case (ListV h t)
  from run show ?thesis
    unfolding ListV print_switch.simps
    by (rule bind_opt_mono)
       (auto intro: print_list_loop_mono mono elim!: bind_opt_mono split: if_splits)
next
  case (TreeV d l r')
  from run show ?thesis
    unfolding TreeV print_switch.simps
    by (rule bind_opt_mono)
       (auto intro: mono elim!: bind_opt_mono split: option.splits)
next
  case (ErrorV e)
  from run show ?thesis
    unfolding ErrorV print_switch.simps
    by (rule bind_opt_mono) (auto intro: mono)
qed (use run in simp_all)

lemma noot_print_Suc_mono:
  "noot_print fuel count args w = Some r \<Longrightarrow> noot_print (Suc fuel) count args w = Some r"
proof (induction fuel arbitrary: count args w r)
  case 0
  then show ?case by simp
next
  case (Suc fuel)
  show ?case
  proof (cases "if 1 \<le> count then read_arg args 0 else Some NOOT_NIL")
    case None
    with Suc.prems show ?thesis by (simp del: NOOT_NIL_def)
  next
    case (Some val)
    with Suc.prems
    have "bind_opt (print_switch (\<lambda>v. noot_print fuel 1 [v]) val w) (\<lambda>_. ret (new_bool True)) = Some r"
      by (simp del: NOOT_NIL_def new_bool_def)
    then have "bind_opt (print_switch (\<lambda>v. noot_print (Suc fuel) 1 [v]) val w)
        (\<lambda>_. ret (new_bool True)) = Some r"
      by (rule bind_opt_mono) (auto intro: print_switch_mono Suc.IH simp del: noot_print.simps)
    with Some show ?thesis
      by (subst noot_print.simps) (simp del: NOOT_NIL_def new_bool_def noot_print.simps)
  qed
qed

lemma noot_print_fuel_mono:
  "noot_print fuel count args w = Some r \<Longrightarrow> fuel \<le> fuel' \<Longrightarrow>
     noot_print fuel' count args w = Some r"
  by (induction fuel' ) (auto simp: le_Suc_eq dest: noot_print_Suc_mono simp del: noot_print.simps)

subsection \<open>Logical not\<close>

text \<open>
  C7. \<^verbatim>\<open>noot_not\<close> on a first argument that is present: a \<^verbatim>\<open>Bool\<close> is inverted, \<^verbatim>\<open>Nil\<close>
  gives true, a value of any other discriminant (an \<^verbatim>\<open>Error\<close> too) gives false, each
  time leaving the world as it was. Whatever the count and the arguments, the call
  never ends on the panic path.
\<close>

theorem noot_not_spec:
  "(1 \<le> count \<longrightarrow>
      (\<forall>b. noot_not count (BoolV b # rest) w = Returns (BoolV (\<not> b)) w) \<and>
      noot_not count (NilV # rest) w = Returns (BoolV True) w \<and>
      (\<forall>v. type_of v \<noteq> BoolT \<and> type_of v \<noteq> NilT \<longrightarrow>
           noot_not count (v # rest) w = Returns (BoolV False) w) \<and>
      (\<forall>e. noot_not count (ErrorV e # rest) w = Returns (BoolV False) w)) \<and>
   (\<forall>c args w'. noot_not c args w \<noteq> Exits w')"
proof -
  have never: "noot_not c args w \<noteq> Exits w'" for c args w'
    by (simp add: noot_not_def split: option.splits NootValue.splits)
  have other: "noot_not count (v # rest) w = Returns (BoolV False) w"
    if "1 \<le> count" "type_of v \<noteq> BoolT" "type_of v \<noteq> NilT" for v
    using that by (cases v) (simp_all add: noot_not_def read_arg_def)
  show ?thesis
    using never other by (simp add: noot_not_def read_arg_def)
qed

theorem noot_not_spec_witness:
  "noot_not 1 [BoolV True] \<lparr>stdout = [], call_stack = []\<rparr>
     = Returns (BoolV False) \<lparr>stdout = [], call_stack = []\<rparr> \<and>
   noot_not 1 [NilV] \<lparr>stdout = [], call_stack = []\<rparr>
     = Returns (BoolV True) \<lparr>stdout = [], call_stack = []\<rparr> \<and>
   noot_not 1 [IntV 0] \<lparr>stdout = [], call_stack = []\<rparr>
     = Returns (BoolV False) \<lparr>stdout = [], call_stack = []\<rparr> \<and>
   noot_not 1 [ErrorV NilV] \<lparr>stdout = [], call_stack = []\<rparr>
     = Returns (BoolV False) \<lparr>stdout = [], call_stack = []\<rparr>"
  using noot_not_spec [of 1 "[]" "\<lparr>stdout = [], call_stack = []\<rparr>"]
  by simp

subsection \<open>Type mismatch in addition\<close>

text \<open>
  C2. For every string \<open>s\<close> and integer \<open>n\<close>, \<^verbatim>\<open>noot_add\<close> of \<^verbatim>\<open>String s\<close> and \<^verbatim>\<open>Int n\<close>
  returns no value: it ends the process on the panic path, having printed the message
  that names \<^verbatim>\<open>string\<close> and \<^verbatim>\<open>int\<close>, a newline and the call-stack trace.
\<close>

theorem noot_add_string_int_panics:
  "noot_add (StringV s) (IntV n) w =
     Exits (print_trace (call_stack w) (length (call_stack w))
              (put (''Attempted to add incompatible types string and int'' @ [newline]) w)) \<and>
   (\<forall>v w'. noot_add (StringV s) (IntV n) w \<noteq> Returns v w')"
  by (simp add: noot_add_def noot_binary_type_panic_def noot_panic_impl_def)

theorem noot_add_string_int_panics_witness:
  "noot_add (StringV ''a'') (IntV 1) \<lparr>stdout = [], call_stack = [''main'']\<rparr> =
     Exits \<lparr>stdout = ''Attempted to add incompatible types string and int'' @ [CHR 0x0A]
                      @ ''at main'' @ [CHR 0x0A],
            call_stack = [''main'']\<rparr>"
  using noot_add_string_int_panics [of "''a''" 1 "\<lparr>stdout = [], call_stack = [''main'']\<rparr>"]
  by (simp add: put_def)

subsection \<open>Ordering of errors\<close>

text \<open>
  C9. For every pair of \<^verbatim>\<open>Error\<close> values, \<^verbatim>\<open>noot_lt_impl\<close> and \<^verbatim>\<open>noot_gt_impl\<close> are the
  recursive equality \<^verbatim>\<open>noot_eq_impl\<close> of the two payloads, so \<^verbatim>\<open>noot_lt\<close> and \<^verbatim>\<open>noot_gt\<close>
  end exactly as \<^verbatim>\<open>noot_eq\<close> of the payloads does, and neither ends on the panic path.
\<close>

theorem error_ordering_is_payload_equality:
  "noot_lt_impl (ErrorV p) (ErrorV q) w = pure_result (noot_eq_impl p q) w \<and>
   noot_gt_impl (ErrorV p) (ErrorV q) w = pure_result (noot_eq_impl p q) w \<and>
   noot_lt (ErrorV p) (ErrorV q) w = noot_eq p q w \<and>
   noot_gt (ErrorV p) (ErrorV q) w = noot_eq p q w \<and>
   (\<forall>w'. noot_lt (ErrorV p) (ErrorV q) w \<noteq> Exits w') \<and>
   (\<forall>w'. noot_gt (ErrorV p) (ErrorV q) w \<noteq> Exits w')"
  by (simp add: noot_lt_def noot_gt_def noot_eq_def noot_lt_impl_def noot_gt_impl_def
      pure_result_def split: option.splits)

theorem error_ordering_is_payload_equality_witness:
  "noot_lt (ErrorV (IntV 1)) (ErrorV (IntV 2)) \<lparr>stdout = [], call_stack = []\<rparr>
     = Returns (BoolV False) \<lparr>stdout = [], call_stack = []\<rparr> \<and>
   noot_gt (ErrorV (IntV 1)) (ErrorV (IntV 2)) \<lparr>stdout = [], call_stack = []\<rparr>
     = Returns (BoolV False) \<lparr>stdout = [], call_stack = []\<rparr> \<and>
   noot_lt (ErrorV (IntV 1)) (ErrorV (IntV 1)) \<lparr>stdout = [], call_stack = []\<rparr>
     = Returns (BoolV True) \<lparr>stdout = [], call_stack = []\<rparr> \<and>
   noot_gt (ErrorV (IntV 1)) (ErrorV (IntV 1)) \<lparr>stdout = [], call_stack = []\<rparr>
     = Returns (BoolV True) \<lparr>stdout = [], call_stack = []\<rparr>"
  using error_ordering_is_payload_equality [of "IntV 1" "IntV 2" "\<lparr>stdout = [], call_stack = []\<rparr>"]
    error_ordering_is_payload_equality [of "IntV 1" "IntV 1" "\<lparr>stdout = [], call_stack = []\<rparr>"]
  by (simp add: noot_eq_def pure_result_def)

subsection \<open>Less-or-equal and greater-or-equal\<close>

lemma lt_impl_returns_eq_defined:
  "noot_lt_impl a b w = Returns l w1 \<Longrightarrow> w1 = w \<and> (\<exists>e. noot_eq_impl a b = Some e)"
  by (cases a; cases b)
     (auto simp: noot_lt_impl_def compare_panic_def noot_binary_type_panic_def
        noot_panic_impl_def pure_result_def Let_def split: option.splits if_splits)

lemma gt_impl_returns_eq_defined:
  "noot_gt_impl a b w = Returns g w1 \<Longrightarrow> w1 = w \<and> (\<exists>e. noot_eq_impl a b = Some e)"
  by (cases a; cases b)
     (auto simp: noot_gt_impl_def compare_panic_def noot_binary_type_panic_def
        noot_panic_impl_def pure_result_def Let_def split: option.splits if_splits)

text \<open>
  C1, as the code has it. \<^verbatim>\<open>noot_le\<close> is \<^verbatim>\<open>noot_lt_impl || noot_eq_impl\<close> and \<^verbatim>\<open>noot_ge\<close>
  is \<^verbatim>\<open>noot_gt_impl || noot_eq_impl\<close>: wherever \<^verbatim>\<open>noot_lt\<close> returns a boolean \<open>l\<close>, equality
  returns a boolean \<open>e\<close> and \<^verbatim>\<open>noot_le\<close> returns \<open>l \<or> e\<close>; likewise \<^verbatim>\<open>noot_ge\<close> with
  \<^verbatim>\<open>noot_gt\<close>. They end as \<^verbatim>\<open>noot_eq\<close> does when both operands are \<^verbatim>\<open>Error\<close> values,
  where the ordering itself is the equality of the payloads.
\<close>

theorem le_ge_are_disjunctions:
  "(noot_lt a b w = Returns (BoolV l) w1 \<longrightarrow>
      (\<exists>e. noot_eq a b w = Returns (BoolV e) w \<and> noot_le a b w = Returns (BoolV (l \<or> e)) w)) \<and>
   (noot_gt a b w = Returns (BoolV g) w2 \<longrightarrow>
      (\<exists>e. noot_eq a b w = Returns (BoolV e) w \<and> noot_ge a b w = Returns (BoolV (g \<or> e)) w)) \<and>
   noot_le (ErrorV p) (ErrorV q) w = noot_eq (ErrorV p) (ErrorV q) w \<and>
   noot_ge (ErrorV p) (ErrorV q) w = noot_eq (ErrorV p) (ErrorV q) w"
proof -
  have le: "\<exists>e. noot_eq a b w = Returns (BoolV e) w \<and> noot_le a b w = Returns (BoolV (l \<or> e)) w"
    if "noot_lt a b w = Returns (BoolV l) w1"
  proof -
    from that obtain w' where "noot_lt_impl a b w = Returns l w'"
      by (cases "noot_lt_impl a b w") (auto simp: noot_lt_def)
    with lt_impl_returns_eq_defined [of a b w l w'] obtain e
      where "noot_lt_impl a b w = Returns l w" "noot_eq_impl a b = Some e" by auto
    then show ?thesis
      by (auto simp: noot_le_def noot_eq_def pure_result_def)
  qed
  have ge: "\<exists>e. noot_eq a b w = Returns (BoolV e) w \<and> noot_ge a b w = Returns (BoolV (g \<or> e)) w"
    if "noot_gt a b w = Returns (BoolV g) w2"
  proof -
    from that obtain w' where "noot_gt_impl a b w = Returns g w'"
      by (cases "noot_gt_impl a b w") (auto simp: noot_gt_def)
    with gt_impl_returns_eq_defined [of a b w g w'] obtain e
      where "noot_gt_impl a b w = Returns g w" "noot_eq_impl a b = Some e" by auto
    then show ?thesis
      by (auto simp: noot_ge_def noot_eq_def pure_result_def)
  qed
  have err: "noot_le (ErrorV p) (ErrorV q) w = noot_eq (ErrorV p) (ErrorV q) w"
    "noot_ge (ErrorV p) (ErrorV q) w = noot_eq (ErrorV p) (ErrorV q) w"
    by (auto simp: noot_le_def noot_ge_def noot_eq_def noot_lt_impl_def noot_gt_impl_def
        pure_result_def split: option.splits)
  from le ge err show ?thesis by blast
qed

theorem le_ge_are_disjunctions_witness:
  "noot_le (IntV 1) (IntV 2) \<lparr>stdout = [], call_stack = []\<rparr>
     = Returns (BoolV True) \<lparr>stdout = [], call_stack = []\<rparr> \<and>
   noot_ge (IntV 1) (IntV 2) \<lparr>stdout = [], call_stack = []\<rparr>
     = Returns (BoolV False) \<lparr>stdout = [], call_stack = []\<rparr>"
proof -
  let ?w = "\<lparr>stdout = [], call_stack = []\<rparr>"
  have lt: "noot_lt (IntV 1) (IntV 2) ?w = Returns (BoolV True) ?w"
    by (simp add: noot_lt_def noot_lt_impl_def)
  have gt: "noot_gt (IntV 1) (IntV 2) ?w = Returns (BoolV False) ?w"
    by (simp add: noot_gt_def noot_gt_impl_def)
  have eq: "noot_eq (IntV 1) (IntV 2) ?w = Returns (BoolV False) ?w"
    by (simp add: noot_eq_def pure_result_def)
  from le_ge_are_disjunctions [of "IntV 1" "IntV 2" ?w True ?w False ?w NilV NilV] lt gt eq
  show ?thesis by auto
qed

text \<open>
  The claim as the spec words it, that \<^verbatim>\<open>le\<close> and \<^verbatim>\<open>ge\<close> return what \<^verbatim>\<open>eq\<close> returns, fails
  on two integers: \<^verbatim>\<open>le(1, 2)\<close> and \<^verbatim>\<open>ge(2, 1)\<close> are true, the two equalities are false.
\<close>

theorem le_ge_not_equality_counterexample:
  "noot_le (IntV 1) (IntV 2) \<lparr>stdout = [], call_stack = []\<rparr>
     = Returns (BoolV True) \<lparr>stdout = [], call_stack = []\<rparr> \<and>
   noot_eq (IntV 1) (IntV 2) \<lparr>stdout = [], call_stack = []\<rparr>
     = Returns (BoolV False) \<lparr>stdout = [], call_stack = []\<rparr> \<and>
   noot_ge (IntV 2) (IntV 1) \<lparr>stdout = [], call_stack = []\<rparr>
     = Returns (BoolV True) \<lparr>stdout = [], call_stack = []\<rparr> \<and>
   noot_eq (IntV 2) (IntV 1) \<lparr>stdout = [], call_stack = []\<rparr>
     = Returns (BoolV False) \<lparr>stdout = [], call_stack = []\<rparr>"
  by (simp add: noot_le_def noot_ge_def noot_eq_def noot_lt_impl_def noot_gt_impl_def
      pure_result_def)

subsection \<open>Reflexivity of equality\<close>

lemma eq_string_loop_refl: "eq_string_loop x x i"
proof (induction "length x - i" arbitrary: i)
  case 0
  then show ?case by (simp add: eq_string_loop.simps)
next
  case (Suc k)
  then have "eq_string_loop x x (i + 1)" by simp
  then show ?case by (subst eq_string_loop.simps) simp
qed

lemma noot_eq_impl_refl: "self_equal_domain a \<Longrightarrow> noot_eq_impl a a = Some True"
  by (induction a) (simp_all add: d_eq_def eq_string_loop_refl)

lemma d_isnan_quiet_nan: "d_isnan 0x7FF8000000000000"
  by (simp add: d_isnan_def d_exp_def d_frac_def)

text \<open>
  The \<^verbatim>\<open>switch\<close> of \<^verbatim>\<open>noot_eq_impl\<close> has no case for a list or a tree: control leaves
  the function without a \<^verbatim>\<open>return\<close>, whatever the right operand.
\<close>

lemma noot_eq_list_undefined: "noot_eq (ListV h t) b w = Undefined"
  by (simp add: noot_eq_def pure_result_def)

lemma noot_eq_tree_undefined: "noot_eq (TreeV d l r) b w = Undefined"
  by (simp add: noot_eq_def pure_result_def)

text \<open>
  C3, as the code has it. For every value \<open>a\<close> of discriminant \<^verbatim>\<open>Nil\<close>, \<^verbatim>\<open>Bool\<close>, \<^verbatim>\<open>Int\<close>,
  \<^verbatim>\<open>String\<close>, \<^verbatim>\<open>Function\<close> or \<^verbatim>\<open>Closure\<close>, every \<^verbatim>\<open>Real\<close> that is not a NaN, and every
  \<^verbatim>\<open>Error\<close> wrapping such a value, \<^verbatim>\<open>noot_eq a a\<close> returns true and leaves the world as it
  was. (Lists and trees are left out: the statement says nothing about them.)
\<close>

theorem noot_eq_reflexive:
  "self_equal_domain a \<Longrightarrow> noot_eq a a w = Returns (BoolV True) w"
  by (simp add: noot_eq_def pure_result_def noot_eq_impl_refl)

theorem noot_eq_reflexive_witness:
  "self_equal_domain (ErrorV (StringV ''boom'')) \<and>
   noot_eq (ErrorV (StringV ''boom'')) (ErrorV (StringV ''boom'')) \<lparr>stdout = [], call_stack = []\<rparr>
     = Returns (BoolV True) \<lparr>stdout = [], call_stack = []\<rparr>"
  using noot_eq_reflexive [of "ErrorV (StringV ''boom'')" "\<lparr>stdout = [], call_stack = []\<rparr>"]
  by simp

text \<open>
  The claim as the spec words it, for every value of every discriminant, fails on a
  \<^verbatim>\<open>Real\<close> holding a NaN (here the quiet NaN \<^verbatim>\<open>0x7FF8000000000000\<close>): the C comparison
  \<^verbatim>\<open>==\<close> of a NaN with itself is false, and \<^verbatim>\<open>noot_eq\<close> returns false.
\<close>

theorem noot_eq_nan_counterexample:
  "noot_eq (RealV 0x7FF8000000000000) (RealV 0x7FF8000000000000) \<lparr>stdout = [], call_stack = []\<rparr>
     = Returns (BoolV False) \<lparr>stdout = [], call_stack = []\<rparr>"
  by (simp add: noot_eq_def pure_result_def d_eq_def d_isnan_quiet_nan)

subsection \<open>Arithmetic on integers and promotion\<close>

lemma sint_word_of_int_id:
  "- (2 ^ 63) \<le> k \<Longrightarrow> k < 2 ^ 63 \<Longrightarrow> sint (word_of_int k :: 64 word) = k"
  by (simp add: signed_of_int signed_take_bit_int_eq_self)

lemma sint_LONG_MIN: "sint x = - (2 ^ 63) \<longleftrightarrow> x = LONG_MIN" for x :: "64 word"
proof
  assume "sint x = - (2 ^ 63)"
  then have "sint x = sint LONG_MIN" by (simp add: LONG_MIN_def)
  then show "x = LONG_MIN" by (rule signed_word_eqI)
next
  assume "x = LONG_MIN" then show "sint x = - (2 ^ 63)" by (simp add: LONG_MIN_def)
qed

lemma sint_minus_one: "sint y = - 1 \<longleftrightarrow> y = - 1" for y :: "64 word"
  by (metis signed_word_eqI sint_n1)

lemma sint_zero: "sint y = 0 \<longleftrightarrow> y = 0" for y :: "64 word"
  by (metis signed_eq_0_iff)

lemma trunc_quotient_range:
  fixes a b :: int
  assumes "- (2 ^ 63) \<le> a" "a < 2 ^ 63" "b \<noteq> 0" "\<not> (a = - (2 ^ 63) \<and> b = - 1)"
  shows "- (2 ^ 63) \<le> sgn a * sgn b * (\<bar>a\<bar> div \<bar>b\<bar>) \<and> sgn a * sgn b * (\<bar>a\<bar> div \<bar>b\<bar>) < 2 ^ 63"
proof -
  have le: "\<bar>a\<bar> div \<bar>b\<bar> \<le> \<bar>a\<bar>"
    using assms(3) int_div_le_self [of "\<bar>a\<bar>" "\<bar>b\<bar>"] by (cases "a = 0") simp_all
  have abs_a: "\<bar>a\<bar> \<le> 2 ^ 63" using assms(1,2) by linarith
  have sg: "\<bar>sgn a * sgn b * (\<bar>a\<bar> div \<bar>b\<bar>)\<bar> = \<bar>a\<bar> div \<bar>b\<bar>"
    using assms(3) by (cases "a = 0") (simp_all add: abs_mult abs_sgn_eq pos_imp_zdiv_nonneg_iff)
  show ?thesis
  proof (cases "\<bar>a\<bar> div \<bar>b\<bar> < 2 ^ 63")
    case True
    with sg show ?thesis by linarith
  next
    case False
    with le abs_a have q: "\<bar>a\<bar> div \<bar>b\<bar> = 2 ^ 63" and a: "\<bar>a\<bar> = 2 ^ 63" by linarith+
    from a assms(1,2) have a': "a = - (2 ^ 63)" by linarith
    have "\<bar>b\<bar> = 1"
    proof (rule ccontr)
      assume "\<bar>b\<bar> \<noteq> 1"
      with assms(3) have "2 \<le> \<bar>b\<bar>" by linarith
      then have "\<bar>a\<bar> div \<bar>b\<bar> \<le> \<bar>a\<bar> div 2"
        by (intro zdiv_mono2) simp_all
      with q a show False by simp
    qed
    with assms(4) a' have "b = 1" by linarith
    with a' show ?thesis by simp
  qed
qed

lemma trunc_remainder_range:
  fixes a b :: int
  assumes "- (2 ^ 63) \<le> b" "b < 2 ^ 63" "b \<noteq> 0"
  shows "- (2 ^ 63) \<le> sgn a * (\<bar>a\<bar> mod \<bar>b\<bar>) \<and> sgn a * (\<bar>a\<bar> mod \<bar>b\<bar>) < 2 ^ 63"
proof -
  have "0 \<le> \<bar>a\<bar> mod \<bar>b\<bar>" "\<bar>a\<bar> mod \<bar>b\<bar> < \<bar>b\<bar>"
    using assms(3) by simp_all
  moreover have "\<bar>b\<bar> \<le> 2 ^ 63" using assms(1,2) by linarith
  moreover have "sgn a = 1 \<or> sgn a = 0 \<or> sgn a = - 1"
    by (simp add: sgn_if)
  ultimately show ?thesis by auto
qed

lemma long_div_sint:
  assumes "y \<noteq> 0" "\<not> (x = LONG_MIN \<and> y = - 1)"
  shows "\<exists>q. long_div x y = Some q \<and> sint q = sgn (sint x) * sgn (sint y) * (\<bar>sint x\<bar> div \<bar>sint y\<bar>)"
proof -
  let ?k = "sgn (sint x) * sgn (sint y) * (\<bar>sint x\<bar> div \<bar>sint y\<bar>)"
  have "sint y \<noteq> 0" using assms(1) by (simp add: sint_zero)
  moreover have "\<not> (sint x = - (2 ^ 63) \<and> sint y = - 1)"
    using assms(2) sint_LONG_MIN [of x] sint_minus_one [of y] by blast
  moreover have "- (2 ^ 63) \<le> sint x" "sint x < 2 ^ 63"
    using sint_ge [of x] sint_lt [of x] by simp_all
  ultimately have "- (2 ^ 63) \<le> ?k \<and> ?k < 2 ^ 63"
    by (intro trunc_quotient_range) auto
  then have "sint (word_of_int ?k :: 64 word) = ?k"
    by (intro sint_word_of_int_id) auto
  moreover have "long_div x y = Some (word_of_int ?k)"
    using assms by (simp only: long_div_def signed_divide_int_def if_False simp_thms)
  ultimately show ?thesis by blast
qed

lemma long_rem_sint:
  assumes "y \<noteq> 0" "\<not> (x = LONG_MIN \<and> y = - 1)"
  shows "\<exists>r. long_rem x y = Some r \<and> sint r = sgn (sint x) * (\<bar>sint x\<bar> mod \<bar>sint y\<bar>)"
proof -
  let ?k = "sgn (sint x) * (\<bar>sint x\<bar> mod \<bar>sint y\<bar>)"
  have "sint y \<noteq> 0" using assms(1) by (simp add: sint_zero)
  moreover have "- (2 ^ 63) \<le> sint y" "sint y < 2 ^ 63"
    using sint_ge [of y] sint_lt [of y] by simp_all
  ultimately have "- (2 ^ 63) \<le> ?k \<and> ?k < 2 ^ 63"
    by (intro trunc_remainder_range) auto
  then have "sint (word_of_int ?k :: 64 word) = ?k"
    by (intro sint_word_of_int_id) auto
  moreover have "long_rem x y = Some (word_of_int ?k)"
    using assms by (simp only: long_rem_def signed_modulo_int_def if_False simp_thms)
  ultimately show ?thesis by blast
qed

text \<open>
  The conversion of a \<^verbatim>\<open>long\<close> to a double. \<open>bit_length\<close> is the number of bits of a
  positive integer, and \<open>round_half_even n d\<close> is within half a unit of \<open>n / d\<close>.
\<close>

lemma round_half_even_cancel:
  assumes "0 < k"
  shows "round_half_even (n * k) (d * k) = round_half_even n d"
proof -
  have "(n * k) div (d * k) = n div d" using assms by simp
  moreover have "(n * k) mod (d * k) = (n mod d) * k" using assms by simp
  ultimately show ?thesis
    using assms by (simp add: round_half_even_def Let_def)
qed

lemma bit_length_bounds:
  "0 < n \<Longrightarrow> 2 ^ (bit_length n - 1) \<le> n \<and> n < 2 ^ bit_length n"
proof (induction n rule: bit_length.induct)
  case (1 n)
  show ?case
  proof (cases "n div 2 = 0")
    case True
    with "1.prems" have "n = 1" by (simp add: div_eq_0_iff) 
    then show ?thesis by (simp add: bit_length.simps)
  next
    case False
    with "1.IH" "1.prems"
    have IH: "2 ^ (bit_length (n div 2) - 1) \<le> n div 2" "n div 2 < 2 ^ bit_length (n div 2)"
      by auto
    have bl: "bit_length n = Suc (bit_length (n div 2))"
      using "1.prems" by (subst bit_length.simps) simp
    have pos: "0 < bit_length (n div 2)"
      using False by (subst bit_length.simps) simp
    from IH(1) have "2 * 2 ^ (bit_length (n div 2) - 1) \<le> n" by linarith
    moreover from pos have "(2::nat) * 2 ^ (bit_length (n div 2) - 1) = 2 ^ bit_length (n div 2)"
      by (cases "bit_length (n div 2)") simp_all
    moreover from IH(2) have "n < 2 * 2 ^ bit_length (n div 2)" by linarith
    ultimately show ?thesis by (simp add: bl)
  qed
qed

lemma bit_length_eqI:
  assumes "2 ^ k \<le> n" "n < 2 ^ Suc k"
  shows "bit_length n = Suc k"
proof -
  from assms(1) have pos: "0 < n" by (metis gr0I not_less pos2 zero_less_power le_0_eq power_not_zero zero_neq_numeral)
  from bit_length_bounds [OF pos]
  have lo: "2 ^ (bit_length n - 1) \<le> n" and hi: "n < 2 ^ bit_length n" by auto
  from lo assms(2) have "(2::nat) ^ (bit_length n - 1) < 2 ^ Suc k" by linarith
  then have a: "bit_length n - 1 < Suc k" by (simp only: power_strict_increasing_iff one_less_numeral_iff semiring_norm)
  from assms(1) hi have "(2::nat) ^ k < 2 ^ bit_length n" by linarith
  then have b: "k < bit_length n" by (simp only: power_strict_increasing_iff one_less_numeral_iff semiring_norm)
  from a b show ?thesis by linarith
qed

lemma bit_length_mult_pow:
  assumes "0 < n"
  shows "bit_length (n * 2 ^ k) = bit_length n + k"
proof -
  from bit_length_bounds [OF assms]
  have lo: "2 ^ (bit_length n - 1) \<le> n" and hi: "n < 2 ^ bit_length n" by auto
  have pos: "0 < bit_length n" using assms by (subst bit_length.simps) simp
  then obtain j where j: "bit_length n = Suc j" by (cases "bit_length n") auto
  from lo j have "2 ^ j * 2 ^ k \<le> n * 2 ^ k" by simp
  then have a: "2 ^ (j + k) \<le> n * 2 ^ k" by (simp add: power_add)
  from hi j have "n * 2 ^ k < 2 ^ Suc j * 2 ^ k" by simp
  then have b: "n * 2 ^ k < 2 ^ Suc (j + k)" by (simp add: power_add)
  from bit_length_eqI [OF a b] j show ?thesis by simp
qed

lemma round_half_even_exact: "0 < d \<Longrightarrow> round_half_even (m * d) d = m"
  by (simp add: round_half_even_def)

lemma round_half_even_error:
  assumes "0 < d"
  shows "\<bar>int (round_half_even n d * d) - int n\<bar> * 2 \<le> int d"
proof -
  let ?q = "n div d" and ?r = "n mod d"
  have n: "int n = int ?q * int d + int ?r"
    by (metis div_mult_mod_eq of_nat_add of_nat_mult)
  have r: "?r < d" using assms by simp
  show ?thesis
  proof (cases "2 * ?r < d")
    case True
    then have "round_half_even n d = ?q" by (simp add: round_half_even_def Let_def)
    with n True show ?thesis by simp
  next
    case False
    show ?thesis
    proof (cases "d < 2 * ?r")
      case True
      with False have "round_half_even n d = ?q + 1" by (simp add: round_half_even_def Let_def)
      with n True r show ?thesis by (simp add: algebra_simps)
    next
      case eq: False
      with False have tie: "2 * ?r = d" by simp
      have "round_half_even n d = ?q \<or> round_half_even n d = ?q + 1"
        by (simp add: round_half_even_def Let_def)
      with n tie show ?thesis by (auto simp: algebra_simps)
    qed
  qed
qed

lemma round_half_even_range:
  assumes "2 ^ (52 + k) \<le> n" "n < 2 ^ (53 + k)"
  shows "2 ^ 52 \<le> round_half_even n (2 ^ k) \<and> round_half_even n (2 ^ k) \<le> 2 ^ 53"
proof -
  let ?q = "n div 2 ^ k"
  have "2 ^ 52 * 2 ^ k \<le> n" using assms(1) by (simp add: power_add)
  then have lo: "2 ^ 52 \<le> ?q" by (simp add: less_eq_div_iff_mult_less_eq)
  have "n < 2 ^ 53 * 2 ^ k" using assms(2) by (simp add: power_add)
  then have hi: "?q < 2 ^ 53" by (simp add: less_mult_imp_div_less)
  have "round_half_even n (2 ^ k) = ?q \<or> round_half_even n (2 ^ k) = ?q + 1"
    by (simp add: round_half_even_def Let_def)
  with lo hi show ?thesis by auto
qed

lemma unat_bits:
  assumes "x < 2 ^ 64"
  shows "unat (of_nat x :: 64 word) = x"
  using assms by (simp add: unat_of_nat)

lemma decode_bits:
  fixes m e :: nat and s :: bool
  assumes m: "2 ^ 52 \<le> m" "m \<le> 2 ^ 53" and e: "e \<le> 2044"
  defines "b \<equiv> (of_nat (e * 2 ^ 52 + m + (if s then 2 ^ 63 else 0)) :: 64 word)"
  shows "d_mag b = m * 2 ^ e \<and> d_sign b = s \<and> \<not> d_isnan b \<and> \<not> d_isinf b"
proof -
  define p :: nat where "p = 2 ^ 52"
  have p0: "0 < p" by (simp add: p_def)
  have p53: "(2::nat) ^ 53 = 2 * p" and p63: "(2::nat) ^ 63 = 2048 * p"
    and p64: "(2::nat) ^ 64 = 4096 * p" by (simp_all add: p_def)
  define f where "f = m - p"
  have mf: "m = p + f" and fp: "f \<le> p"
    using m by (simp_all add: f_def p_def)
  define t where "t = e + 1 + (if s then 2048 else 0)"
  have u0: "e * 2 ^ 52 + m + (if s then 2 ^ 63 else 0) = t * p + f"
    by (simp add: mf t_def p_def algebra_simps)
  have t: "t \<le> 4093" using e by (simp add: t_def)
  have "t * p \<le> 4093 * p" using t by (rule mult_le_mono1)
  with fp p0 have lt: "t * p + f < 2 ^ 64" unfolding p64 by linarith
  have u: "unat b = t * p + f" unfolding b_def u0 using lt by (rule unat_bits)
  have sign: "d_sign b = s"
  proof (cases s)
    case True
    then have "2049 \<le> t" by (simp add: t_def)
    then have "2049 * p \<le> t * p" by (rule mult_le_mono1)
    then have "2048 * p \<le> t * p + f" by linarith
    with True show ?thesis unfolding d_sign_def u p63 by simp
  next
    case False
    then have "t \<le> 2045" using e by (simp add: t_def)
    then have "t * p \<le> 2045 * p" by (rule mult_le_mono1)
    with fp p0 have "\<not> 2048 * p \<le> t * p + f" by linarith
    with False show ?thesis unfolding d_sign_def u p63 by simp
  qed
  have "t = e + 1 \<or> t = e + 1 + 2048" by (simp add: t_def)
  moreover have "(e + 1 + 2048) mod 2048 = (e + 1) mod 2048"
    by (rule mod_add_self2)
  moreover have "(e + 1 + 2048 + 1) mod 2048 = (e + 2) mod 2048"
    using mod_add_self2 [of "e + 2" 2048] by (simp add: add.commute add.left_commute)
  ultimately have "t mod 2048 = (e + 1) mod 2048" and "(t + 1) mod 2048 = (e + 2) mod 2048"
    by auto
  with e have tmod: "t mod 2048 = e + 1" and tmod': "(t + 1) mod 2048 = e + 2"
    by simp_all
  show ?thesis
  proof (cases "f < p")
    case True
    have dv: "(t * p + f) div p = t" using True by simp
    have md: "(t * p + f) mod p = f" using True by simp
    have ex: "d_exp b = e + 1"
      unfolding d_exp_def u p_def [symmetric] dv tmod ..
    have fr: "d_frac b = f"
      unfolding d_frac_def u p_def [symmetric] md ..
    have mag: "d_mag b = m * 2 ^ e"
      unfolding d_mag_def ex fr p_def [symmetric] by (simp add: mf)
    have "\<not> d_isnan b" "\<not> d_isinf b"
      unfolding d_isnan_def d_isinf_def ex using e by simp_all
    with mag sign show ?thesis by simp
  next
    case False
    with fp have f: "f = p" by simp
    have u': "unat b = (t + 1) * p" unfolding u f by simp
    have dv: "((t + 1) * p) div p = t + 1" using p0 by simp
    have md: "((t + 1) * p) mod p = 0" by simp
    have ex: "d_exp b = e + 2"
      unfolding d_exp_def u' p_def [symmetric] dv tmod' ..
    have fr: "d_frac b = 0"
      unfolding d_frac_def u' p_def [symmetric] md ..
    have mag: "d_mag b = m * 2 ^ e"
      unfolding d_mag_def ex fr p_def [symmetric] by (simp add: mf f)
    have "\<not> d_isnan b" "\<not> d_isinf b"
      unfolding d_isnan_def d_isinf_def ex using e by simp_all
    with mag sign show ?thesis by simp
  qed
qed


lemma d_round_bits:
  assumes m: "2 ^ 52 \<le> m" "m \<le> 2 ^ 53" and e: "e \<le> 2044"
    and sh: "bit_length (n div 1) - 53 = e" and r: "round_half_even n (1 * 2 ^ e) = m"
  shows "d_round s n 1 = of_nat (e * 2 ^ 52 + m + (if s then 2 ^ 63 else 0))"
proof -
  have "e * 2 ^ 52 \<le> 2044 * 2 ^ 52" using e by (rule mult_le_mono1)
  with m(2) have "e * 2 ^ 52 + m \<le> d_inf_bits" by (simp add: d_inf_bits_def)
  then have "min (e * 2 ^ 52 + m) d_inf_bits = e * 2 ^ 52 + m" by (rule min_absorb1)
  then show ?thesis unfolding d_round_def Let_def sh r by (rule arg_cong [where f = "\<lambda>x. of_nat (x + _)"])
qed

text \<open>Rounding an integer multiple of a power of two in the normal range.\<close>

lemma d_round_pow:
  fixes n c :: nat and s :: bool
  assumes pos: "0 < n" and lo: "53 \<le> bit_length n + c" and hi: "bit_length n + c \<le> 2097"
  defines "k \<equiv> bit_length n - 53"
  defines "b \<equiv> d_round s (n * 2 ^ c) 1"
  shows "d_mag b = round_half_even n (2 ^ k) * 2 ^ k * 2 ^ c \<and> d_sign b = s \<and>
         \<not> d_isnan b \<and> \<not> d_isinf b"
proof -
  from bit_length_bounds [OF pos]
  have nlo: "2 ^ (bit_length n - 1) \<le> n" and nhi: "n < 2 ^ bit_length n" by auto
  have blpos: "0 < bit_length n" using pos by (subst bit_length.simps) simp
  define e where "e = bit_length n + c - 53"
  have e: "e \<le> 2044" using hi by (simp add: e_def)
  have sh: "bit_length (n * 2 ^ c div 1) - 53 = e"
    by (simp add: bit_length_mult_pow [OF pos] e_def)
  show ?thesis
  proof (cases "bit_length n \<le> 53")
    case small: True
    then have k0: "k = 0" by (simp add: k_def)
    define j where "j = 53 - bit_length n"
    define m where "m = n * 2 ^ j"
    have c: "c = j + e" using small lo by (simp add: j_def e_def)
    have N: "n * 2 ^ c = m * 2 ^ e" by (simp add: c m_def power_add)
    have rnd: "round_half_even (n * 2 ^ c) (1 * 2 ^ e) = m"
      unfolding N by (simp add: round_half_even_exact)
    have "(2::nat) ^ (bit_length n - 1) * 2 ^ j = 2 ^ 52"
      unfolding power_add [symmetric] using small blpos by (simp add: j_def)
    moreover have "2 ^ (bit_length n - 1) * 2 ^ j \<le> m"
      unfolding m_def using nlo by (rule mult_le_mono1)
    ultimately have m_lo: "2 ^ 52 \<le> m" by simp
    have "(2::nat) ^ bit_length n * 2 ^ j = 2 ^ 53"
      unfolding power_add [symmetric] using small by (simp add: j_def)
    moreover have "m \<le> 2 ^ bit_length n * 2 ^ j"
      unfolding m_def using nhi by (intro mult_le_mono1) simp
    ultimately have m_hi: "m \<le> 2 ^ 53" by simp
    have conv: "b = of_nat (e * 2 ^ 52 + m + (if s then 2 ^ 63 else 0))"
      unfolding b_def by (rule d_round_bits [OF m_lo m_hi e sh rnd])
    from decode_bits [OF m_lo m_hi e, of s]
    have "d_mag b = m * 2 ^ e" "d_sign b = s" "\<not> d_isnan b" "\<not> d_isinf b"
      unfolding conv by auto
    moreover have "round_half_even n (2 ^ k) * 2 ^ k * 2 ^ c = m * 2 ^ e"
      unfolding N [symmetric] using round_half_even_exact [of 1 n] by (simp add: k0)
    ultimately show ?thesis by simp
  next
    case big: False
    then have k: "bit_length n = 53 + k" by (simp add: k_def)
    define m where "m = round_half_even n (2 ^ k)"
    have ek: "e = k + c" by (simp add: e_def k)
    have rnd: "round_half_even (n * 2 ^ c) (1 * 2 ^ e) = m"
      unfolding m_def ek power_add
      using round_half_even_cancel [of "2 ^ c" n "2 ^ k"] by simp
    have "2 ^ (52 + k) \<le> n" "n < 2 ^ (53 + k)"
      using nlo nhi by (simp_all add: k)
    from round_half_even_range [OF this]
    have m_lo: "2 ^ 52 \<le> m" and m_hi: "m \<le> 2 ^ 53" by (auto simp: m_def)
    have conv: "b = of_nat (e * 2 ^ 52 + m + (if s then 2 ^ 63 else 0))"
      unfolding b_def by (rule d_round_bits [OF m_lo m_hi e sh rnd])
    from decode_bits [OF m_lo m_hi e, of s]
    have "d_mag b = m * 2 ^ e" "d_sign b = s" "\<not> d_isnan b" "\<not> d_isinf b"
      unfolding conv by auto
    moreover have "round_half_even n (2 ^ k) * 2 ^ k * 2 ^ c = m * 2 ^ e"
      by (simp add: m_def ek power_add)
    ultimately show ?thesis by simp
  qed
qed

lemma bit_length_small:
  assumes "n < 2 ^ 53"
  shows "bit_length n \<le> 53"
proof (cases "n = 0")
  case True
  then show ?thesis by (simp add: bit_length.simps)
next
  case False
  then have "0 < n" by simp
  from bit_length_bounds [OF this] have "2 ^ (bit_length n - 1) \<le> n" by simp
  with assms have "(2::nat) ^ (bit_length n - 1) < 2 ^ 53" by linarith
  then have "bit_length n - 1 < 53"
    by (simp only: power_strict_increasing_iff one_less_numeral_iff semiring_norm)
  then show ?thesis by simp
qed

lemma round_to_53_bits_small:
  assumes "n \<le> 2 ^ 53"
  shows "round_half_even n (2 ^ (bit_length n - 53)) * 2 ^ (bit_length n - 53) = n"
proof (cases "n < 2 ^ 53")
  case True
  from bit_length_small [OF this] have "bit_length n - 53 = 0" by simp
  then show ?thesis using round_half_even_exact [of 1 n] by simp
next
  case False
  with assms have n: "n = 2 ^ 53" by simp
  have "bit_length n = Suc 53" unfolding n by (rule bit_length_eqI) simp_all
  then have k: "bit_length n - 53 = 1" by simp
  have "round_half_even (2 ^ 52 * 2) 2 = 2 ^ 52" by (rule round_half_even_exact) simp
  then have "round_half_even (2 ^ 53) 2 * 2 = 2 ^ 53" by simp
  then show ?thesis unfolding k unfolding n by simp
qed

text \<open>
  The conversion of a \<^verbatim>\<open>long\<close> is the rounding to nearest, ties to even, of the integer
  to 53 significant bits: a finite double of the sign of the integer.
\<close>

lemma d_of_long_value:
  fixes i :: long
  defines "n \<equiv> nat \<bar>sint i\<bar>"
  defines "k \<equiv> bit_length n - 53"
  shows "\<not> d_isnan (d_of_long i) \<and> \<not> d_isinf (d_of_long i) \<and>
         d_sign (d_of_long i) = (sint i < 0) \<and>
         d_int (d_of_long i) = sgn (sint i) * int (round_half_even n (2 ^ k) * 2 ^ k) * 2 ^ 1074"
proof (cases "n = 0")
  case True
  then have z: "sint i = 0" by (simp add: n_def)
  have "d_of_long i = 0"
    by (simp add: d_of_long_def z d_round_def bit_length.simps round_half_even_def)
  then show ?thesis
    using z by (simp add: d_int_def d_isnan_def d_isinf_def d_exp_def d_frac_def d_sign_def d_mag_def)
next
  case False
  then have pos: "0 < n" by simp
  have "n \<le> 2 ^ 63"
    using sint_ge [of i] sint_lt [of i] by (simp add: n_def)
  also have "\<dots> < (2::nat) ^ 64" by simp
  finally have n64: "n < 2 ^ 64" .
  from bit_length_bounds [OF pos] have "2 ^ (bit_length n - 1) \<le> n" by simp
  with n64 have "(2::nat) ^ (bit_length n - 1) < 2 ^ 64" by linarith
  then have "bit_length n - 1 < 64"
    by (simp only: power_strict_increasing_iff one_less_numeral_iff semiring_norm)
  then have hi: "bit_length n + 1074 \<le> 2097" by simp
  have lo: "53 \<le> bit_length n + 1074" by simp
  have conv: "d_of_long i = d_round (sint i < 0) (n * 2 ^ 1074) 1"
    unfolding d_of_long_def n_def ..
  define a where "a = round_half_even n (2 ^ k) * 2 ^ k"
  from d_round_pow [OF pos lo hi, of "sint i < 0"]
  have mag: "d_mag (d_of_long i) = a * 2 ^ 1074"
    and sign: "d_sign (d_of_long i) = (sint i < 0)"
    and fin: "\<not> d_isnan (d_of_long i)" "\<not> d_isinf (d_of_long i)"
    unfolding conv k_def a_def by blast+
  have sg: "sgn (sint i) = (if sint i < 0 then - 1 else 1)"
    using pos by (simp add: n_def sgn_if)
  have gen: "(if s then - int (a * P) else int (a * P)) = (if s then - 1 else 1) * int a * int P"
    for s P by simp
  have "d_int (d_of_long i) = sgn (sint i) * int a * int (2 ^ 1074)"
    unfolding d_int_def mag sign sg by (rule gen)
  also have "int (2 ^ 1074) = 2 ^ 1074" by (simp only: of_nat_power of_nat_numeral)
  finally show ?thesis using sign fin unfolding a_def by blast
qed

lemma d_of_long_exact:
  assumes "\<bar>sint i\<bar> \<le> 2 ^ 53"
  shows "d_int (d_of_long i) = sint i * 2 ^ 1074"
proof -
  let ?n = "nat \<bar>sint i\<bar>"
  from assms have "?n \<le> 2 ^ 53" by simp
  from round_to_53_bits_small [OF this] d_of_long_value [of i]
  have "d_int (d_of_long i) = sgn (sint i) * int ?n * 2 ^ 1074" by simp
  moreover have "sgn (sint i) * int ?n = sint i" by (simp add: mult_sgn_abs)
  ultimately show ?thesis by simp
qed

lemma d_add_finite:
  assumes "\<not> d_isnan a" "\<not> d_isnan b" "\<not> d_isinf a" "\<not> d_isinf b"
    and "d_int a + d_int b = - int n" "0 < n"
  shows "d_add a b = d_round True n 1"
  using assms by (simp add: d_add_def)

lemma d_of_long_minus_seven: "d_of_long (- 7) = 0xC01C000000000000"
proof -
  have conv: "d_of_long (- 7) = d_round True (7 * 2 ^ 1074) 1"
    by (simp add: d_of_long_def)
  have N: "(7::nat) * 2 ^ 1074 = (7 * 2 ^ 50) * 2 ^ 1024" by simp
  have "bit_length (7 * 2 ^ 50) = Suc 52" by (rule bit_length_eqI) simp_all
  then have sh: "bit_length ((7 * 2 ^ 50) * 2 ^ 1024 div 1) - 53 = 1024"
    unfolding div_by_1 by (subst bit_length_mult_pow) simp_all
  have r: "round_half_even ((7 * 2 ^ 50) * 2 ^ 1024) (1 * 2 ^ 1024) = 7 * 2 ^ 50"
    unfolding mult_1 by (rule round_half_even_exact) simp
  have "d_round True ((7 * 2 ^ 50) * 2 ^ 1024) 1 =
      of_nat (1024 * 2 ^ 52 + 7 * 2 ^ 50 + (if True then 2 ^ 63 else 0))"
    by (rule d_round_bits [OF _ _ _ sh r]) simp_all
  then show ?thesis unfolding conv N by simp
qed

lemma d_add_minus_seven_three:
  "d_add 0xC01C000000000000 0x4008000000000000 = 0xC010000000000000"
proof -
  let ?a = "0xC01C000000000000 :: double" and ?b = "0x4008000000000000 :: double"
  have a: "d_exp ?a = 1025" "d_frac ?a = 3 * 2 ^ 50" "d_sign ?a"
    by (simp_all add: d_exp_def d_frac_def d_sign_def)
  have b: "d_exp ?b = 1024" "d_frac ?b = 2 ^ 51" "\<not> d_sign ?b"
    by (simp_all add: d_exp_def d_frac_def d_sign_def)
  have fin: "\<not> d_isnan ?a" "\<not> d_isnan ?b" "\<not> d_isinf ?a" "\<not> d_isinf ?b"
    by (simp_all add: d_isnan_def d_isinf_def a b)
  have v: "d_int ?a + d_int ?b = - int (2 ^ 52 * 2 ^ 1024)"
    unfolding d_int_def d_mag_def a(1,2) b(1,2) using a(3) b(3) by simp
  have add: "d_add ?a ?b = d_round True (2 ^ 52 * 2 ^ 1024) 1"
    by (rule d_add_finite [OF fin v]) simp
  have "bit_length (2 ^ 52) = Suc 52" by (rule bit_length_eqI) simp_all
  then have sh: "bit_length (2 ^ 52 * 2 ^ 1024 div 1) - 53 = 1024"
    unfolding div_by_1 by (subst bit_length_mult_pow) simp_all
  have r: "round_half_even (2 ^ 52 * 2 ^ 1024) (1 * 2 ^ 1024) = 2 ^ 52"
    unfolding mult_1 by (rule round_half_even_exact) simp
  have "d_round True (2 ^ 52 * 2 ^ 1024) 1 =
      of_nat (1024 * 2 ^ 52 + 2 ^ 52 + (if True then 2 ^ 63 else 0))"
    by (rule d_round_bits [OF _ _ _ sh r]) simp_all
  then show ?thesis unfolding add by simp
qed

lemma d_of_long_rounds: "d_of_long 0x20000000000001 = 0x4340000000000000"
proof -
  have conv: "d_of_long 0x20000000000001 = d_round False ((2 ^ 53 + 1) * 2 ^ 1074) 1"
    by (simp add: d_of_long_def)
  have "bit_length (2 ^ 53 + 1) = Suc 53" by (rule bit_length_eqI) simp_all
  then have sh: "bit_length ((2 ^ 53 + 1) * 2 ^ 1074 div 1) - 53 = 1075"
    unfolding div_by_1 by (subst bit_length_mult_pow) simp_all
  have "round_half_even ((2 ^ 53 + 1) * 2 ^ 1074) (2 * 2 ^ 1074) = round_half_even (2 ^ 53 + 1) 2"
    by (rule round_half_even_cancel) simp
  also have "\<dots> = 2 ^ 52" by (simp add: round_half_even_def)
  also have "(2::nat) * 2 ^ 1074 = 1 * 2 ^ 1075" by simp
  finally have r: "round_half_even ((2 ^ 53 + 1) * 2 ^ 1074) (1 * 2 ^ 1075) = 2 ^ 52" .
  have "d_round False ((2 ^ 53 + 1) * 2 ^ 1074) 1 =
      of_nat (1075 * 2 ^ 52 + 2 ^ 52 + (if False then 2 ^ 63 else 0))"
    by (rule d_round_bits [OF _ _ _ sh r]) simp_all
  then show ?thesis unfolding conv by simp
qed

text \<open>
  C5. For the five operators: on two \<^verbatim>\<open>Int\<close> operands the result is an \<^verbatim>\<open>Int\<close>, the
  machine sum, difference and product (64-bit, wrapping), and for a divisor that is
  not zero (and not the overflow \<^verbatim>\<open>LONG_MIN / -1\<close>) the quotient and the remainder of the
  division that truncates towards zero, the remainder taking the sign of the dividend;
  on a zero divisor or that overflow the machine division traps, and the call is
  undefined.
  On an \<^verbatim>\<open>Int\<close> and a \<^verbatim>\<open>Real\<close>, in either order, the result is the \<^verbatim>\<open>Real\<close> that the operator
  gives on the \<^verbatim>\<open>Int\<close> converted to a double and the \<^verbatim>\<open>Real\<close>; in particular
  \<^verbatim>\<open>add(Int x, Real r)\<close> is \<^verbatim>\<open>add(Real (double) x, Real r)\<close>.
  The converted \<^verbatim>\<open>Int\<close> is a finite double (neither a NaN nor an infinity) of the sign of
  the integer, and its value (\<open>d_int\<close>, in units of \<open>2\<^sup>-\<^sup>1\<^sup>0\<^sup>7\<^sup>4\<close>) is the integer rounded to
  53 significant bits, to nearest and ties to even; it is the integer itself when its
  magnitude is at most \<open>2\<^sup>5\<^sup>3\<close>, where the promotion preserves the value.
\<close>

theorem arithmetic_int_and_promotion:
  "noot_add (IntV x) (IntV y) w = Returns (IntV (x + y)) w \<and>
   noot_sub (IntV x) (IntV y) w = Returns (IntV (x - y)) w \<and>
   noot_mul (IntV x) (IntV y) w = Returns (IntV (x * y)) w \<and>
   (y \<noteq> 0 \<and> \<not> (x = LONG_MIN \<and> y = - 1) \<longrightarrow>
      (\<exists>q r. noot_div (IntV x) (IntV y) w = Returns (IntV q) w \<and>
             noot_rem (IntV x) (IntV y) w = Returns (IntV r) w \<and>
             sint q = sgn (sint x) * sgn (sint y) * (\<bar>sint x\<bar> div \<bar>sint y\<bar>) \<and>
             sint r = sgn (sint x) * (\<bar>sint x\<bar> mod \<bar>sint y\<bar>))) \<and>
   (y = 0 \<or> (x = LONG_MIN \<and> y = - 1) \<longrightarrow>
      noot_div (IntV x) (IntV y) w = Undefined \<and> noot_rem (IntV x) (IntV y) w = Undefined) \<and>
   noot_add (IntV x) (RealV r) w = noot_add (RealV (d_of_long x)) (RealV r) w \<and>
   noot_add (RealV r) (IntV x) w = noot_add (RealV r) (RealV (d_of_long x)) w \<and>
   noot_sub (IntV x) (RealV r) w = noot_sub (RealV (d_of_long x)) (RealV r) w \<and>
   noot_sub (RealV r) (IntV x) w = noot_sub (RealV r) (RealV (d_of_long x)) w \<and>
   noot_mul (IntV x) (RealV r) w = noot_mul (RealV (d_of_long x)) (RealV r) w \<and>
   noot_mul (RealV r) (IntV x) w = noot_mul (RealV r) (RealV (d_of_long x)) w \<and>
   noot_div (IntV x) (RealV r) w = noot_div (RealV (d_of_long x)) (RealV r) w \<and>
   noot_div (RealV r) (IntV x) w = noot_div (RealV r) (RealV (d_of_long x)) w \<and>
   noot_rem (IntV x) (RealV r) w = noot_rem (RealV (d_of_long x)) (RealV r) w \<and>
   noot_rem (RealV r) (IntV x) w = noot_rem (RealV r) (RealV (d_of_long x)) w \<and>
   noot_add (IntV x) (RealV r) w = Returns (RealV (d_add (d_of_long x) r)) w \<and>
   noot_sub (IntV x) (RealV r) w = Returns (RealV (d_sub (d_of_long x) r)) w \<and>
   noot_mul (IntV x) (RealV r) w = Returns (RealV (d_mul (d_of_long x) r)) w \<and>
   noot_div (IntV x) (RealV r) w = Returns (RealV (d_div (d_of_long x) r)) w \<and>
   noot_rem (IntV x) (RealV r) w = Returns (RealV (fmod (d_of_long x) r)) w \<and>
   noot_add (RealV r) (IntV x) w = Returns (RealV (d_add r (d_of_long x))) w \<and>
   noot_sub (RealV r) (IntV x) w = Returns (RealV (d_sub r (d_of_long x))) w \<and>
   noot_mul (RealV r) (IntV x) w = Returns (RealV (d_mul r (d_of_long x))) w \<and>
   noot_div (RealV r) (IntV x) w = Returns (RealV (d_div r (d_of_long x))) w \<and>
   noot_rem (RealV r) (IntV x) w = Returns (RealV (fmod r (d_of_long x))) w \<and>
   \<not> d_isnan (d_of_long x) \<and> \<not> d_isinf (d_of_long x) \<and>
   d_sign (d_of_long x) = (sint x < 0) \<and>
   d_int (d_of_long x) =
     sgn (sint x) *
     int (round_half_even (nat \<bar>sint x\<bar>) (2 ^ (bit_length (nat \<bar>sint x\<bar>) - 53)) *
          2 ^ (bit_length (nat \<bar>sint x\<bar>) - 53)) * 2 ^ 1074 \<and>
   (\<bar>sint x\<bar> \<le> 2 ^ 53 \<longrightarrow> d_int (d_of_long x) = sint x * 2 ^ 1074)"
proof -
  have divrem: "\<exists>q r. noot_div (IntV x) (IntV y) w = Returns (IntV q) w \<and>
             noot_rem (IntV x) (IntV y) w = Returns (IntV r) w \<and>
             sint q = sgn (sint x) * sgn (sint y) * (\<bar>sint x\<bar> div \<bar>sint y\<bar>) \<and>
             sint r = sgn (sint x) * (\<bar>sint x\<bar> mod \<bar>sint y\<bar>)"
    if "y \<noteq> 0" "\<not> (x = LONG_MIN \<and> y = - 1)"
  proof -
    from long_div_sint [OF that] obtain q where
      q: "long_div x y = Some q" "sint q = sgn (sint x) * sgn (sint y) * (\<bar>sint x\<bar> div \<bar>sint y\<bar>)"
      by blast
    from long_rem_sint [OF that] obtain r where
      r: "long_rem x y = Some r" "sint r = sgn (sint x) * (\<bar>sint x\<bar> mod \<bar>sint y\<bar>)"
      by blast
    from q r show ?thesis
      by (simp add: noot_div_def noot_rem_def pure_result_def)
  qed
  have rest: "noot_add (IntV x) (IntV y) w = Returns (IntV (x + y)) w"
    "noot_sub (IntV x) (IntV y) w = Returns (IntV (x - y)) w"
    "noot_mul (IntV x) (IntV y) w = Returns (IntV (x * y)) w"
    by (simp_all add: noot_add_def noot_sub_def noot_mul_def)
  have mixed:
    "noot_add (IntV x) (RealV r) w = Returns (RealV (d_add (d_of_long x) r)) w"
    "noot_sub (IntV x) (RealV r) w = Returns (RealV (d_sub (d_of_long x) r)) w"
    "noot_mul (IntV x) (RealV r) w = Returns (RealV (d_mul (d_of_long x) r)) w"
    "noot_div (IntV x) (RealV r) w = Returns (RealV (d_div (d_of_long x) r)) w"
    "noot_rem (IntV x) (RealV r) w = Returns (RealV (fmod (d_of_long x) r)) w"
    "noot_add (RealV r) (IntV x) w = Returns (RealV (d_add r (d_of_long x))) w"
    "noot_sub (RealV r) (IntV x) w = Returns (RealV (d_sub r (d_of_long x))) w"
    "noot_mul (RealV r) (IntV x) w = Returns (RealV (d_mul r (d_of_long x))) w"
    "noot_div (RealV r) (IntV x) w = Returns (RealV (d_div r (d_of_long x))) w"
    "noot_rem (RealV r) (IntV x) w = Returns (RealV (fmod r (d_of_long x))) w"
    by (simp_all add: noot_add_def noot_sub_def noot_mul_def noot_div_def noot_rem_def)
  have real:
    "noot_add (RealV a) (RealV b) w = Returns (RealV (d_add a b)) w"
    "noot_sub (RealV a) (RealV b) w = Returns (RealV (d_sub a b)) w"
    "noot_mul (RealV a) (RealV b) w = Returns (RealV (d_mul a b)) w"
    "noot_div (RealV a) (RealV b) w = Returns (RealV (d_div a b)) w"
    "noot_rem (RealV a) (RealV b) w = Returns (RealV (fmod a b)) w" for a b
    by (simp_all add: noot_add_def noot_sub_def noot_mul_def noot_div_def noot_rem_def)
  have trap: "noot_div (IntV x) (IntV y) w = Undefined \<and> noot_rem (IntV x) (IntV y) w = Undefined"
    if "y = 0 \<or> (x = LONG_MIN \<and> y = - 1)"
    using that by (auto simp: noot_div_def noot_rem_def long_div_def long_rem_def pure_result_def)
  have conv: "\<not> d_isnan (d_of_long x)" "\<not> d_isinf (d_of_long x)"
    "d_sign (d_of_long x) = (sint x < 0)"
    "d_int (d_of_long x) =
       sgn (sint x) *
       int (round_half_even (nat \<bar>sint x\<bar>) (2 ^ (bit_length (nat \<bar>sint x\<bar>) - 53)) *
            2 ^ (bit_length (nat \<bar>sint x\<bar>) - 53)) * 2 ^ 1074"
    using d_of_long_value [of x] by blast+
  have exact: "\<bar>sint x\<bar> \<le> 2 ^ 53 \<longrightarrow> d_int (d_of_long x) = sint x * 2 ^ 1074"
    using d_of_long_exact [of x] by blast
  have ints: "(y \<noteq> 0 \<and> \<not> (x = LONG_MIN \<and> y = - 1) \<longrightarrow>
      (\<exists>q r. noot_div (IntV x) (IntV y) w = Returns (IntV q) w \<and>
             noot_rem (IntV x) (IntV y) w = Returns (IntV r) w \<and>
             sint q = sgn (sint x) * sgn (sint y) * (\<bar>sint x\<bar> div \<bar>sint y\<bar>) \<and>
             sint r = sgn (sint x) * (\<bar>sint x\<bar> mod \<bar>sint y\<bar>)))"
    "(y = 0 \<or> (x = LONG_MIN \<and> y = - 1) \<longrightarrow>
      noot_div (IntV x) (IntV y) w = Undefined \<and> noot_rem (IntV x) (IntV y) w = Undefined)"
    using divrem trap by blast+
  show ?thesis
    by (intro conjI rest ints mixed conv exact) (simp_all only: mixed real)
qed


theorem arithmetic_int_and_promotion_witness:
  "noot_div (IntV (- 7)) (IntV 2) \<lparr>stdout = [], call_stack = []\<rparr>
     = Returns (IntV (- 3)) \<lparr>stdout = [], call_stack = []\<rparr> \<and>
   noot_rem (IntV (- 7)) (IntV 2) \<lparr>stdout = [], call_stack = []\<rparr>
     = Returns (IntV (- 1)) \<lparr>stdout = [], call_stack = []\<rparr> \<and>
   noot_add (IntV 0x7FFFFFFFFFFFFFFF) (IntV 1) \<lparr>stdout = [], call_stack = []\<rparr>
     = Returns (IntV 0x8000000000000000) \<lparr>stdout = [], call_stack = []\<rparr> \<and>
   noot_div (IntV 1) (IntV 0) \<lparr>stdout = [], call_stack = []\<rparr> = Undefined \<and>
   noot_add (IntV (- 7)) (RealV 0x4008000000000000) \<lparr>stdout = [], call_stack = []\<rparr>
     = noot_add (RealV 0xC01C000000000000) (RealV 0x4008000000000000) \<lparr>stdout = [], call_stack = []\<rparr> \<and>
   noot_add (IntV (- 7)) (RealV 0x4008000000000000) \<lparr>stdout = [], call_stack = []\<rparr>
     = Returns (RealV 0xC010000000000000) \<lparr>stdout = [], call_stack = []\<rparr> \<and>
   d_of_long (- 7) = 0xC01C000000000000 \<and>
   d_int (d_of_long (- 7)) = - 7 * 2 ^ 1074 \<and>
   d_int (d_of_long 0x20000000000001) = 2 ^ 53 * 2 ^ 1074"
proof -
  let ?w = "\<lparr>stdout = [], call_stack = []\<rparr>"
  note inst = arithmetic_int_and_promotion [of "- 7" 2 ?w "0x4008000000000000"]
  have hyp: "(2 :: long) \<noteq> 0 \<and> \<not> ((- 7 :: long) = LONG_MIN \<and> (2 :: long) = - 1)"
    by (simp add: LONG_MIN_def)
  with inst obtain q r where
    q: "noot_div (IntV (- 7)) (IntV 2) ?w = Returns (IntV q) ?w"
      "sint q = sgn (sint (- 7 :: long)) * sgn (sint (2 :: long)) * (\<bar>sint (- 7 :: long)\<bar> div \<bar>sint (2 :: long)\<bar>)"
    and r: "noot_rem (IntV (- 7)) (IntV 2) ?w = Returns (IntV r) ?w"
      "sint r = sgn (sint (- 7 :: long)) * (\<bar>sint (- 7 :: long)\<bar> mod \<bar>sint (2 :: long)\<bar>)"
    by blast
  from q(2) have "sint q = sint (- 3 :: long)" by simp
  then have q3: "q = - 3" by (rule signed_word_eqI)
  from r(2) have "sint r = sint (- 1 :: long)" by simp
  then have r1: "r = - 1" by (rule signed_word_eqI)
  have add: "noot_add (IntV 0x7FFFFFFFFFFFFFFF) (IntV 1) ?w = Returns (IntV 0x8000000000000000) ?w"
    using arithmetic_int_and_promotion [of "0x7FFFFFFFFFFFFFFF" 1 ?w 0] by simp
  have trap: "noot_div (IntV 1) (IntV 0) ?w = Undefined"
    using arithmetic_int_and_promotion [of 1 0 ?w 0] by simp
  have small: "\<bar>sint (- 7 :: long)\<bar> \<le> 2 ^ 53" by simp
  from inst small have exact: "d_int (d_of_long (- 7)) = sint (- 7 :: long) * 2 ^ 1074"
    by blast
  have mixed1: "noot_add (IntV (- 7)) (RealV 0x4008000000000000) ?w
      = noot_add (RealV (d_of_long (- 7))) (RealV 0x4008000000000000) ?w"
    and mixed2: "noot_add (IntV (- 7)) (RealV 0x4008000000000000) ?w
      = Returns (RealV (d_add (d_of_long (- 7)) 0x4008000000000000)) ?w"
    using inst by blast+
  have n: "nat \<bar>sint (0x20000000000001 :: long)\<bar> = 2 ^ 53 + 1"
    and s: "sgn (sint (0x20000000000001 :: long)) = 1" by simp_all
  have bl: "bit_length (2 ^ 53 + 1) - 53 = 1"
    using bit_length_eqI [of 53 "2 ^ 53 + 1"] by simp
  have rnd: "d_int (d_of_long 0x20000000000001)
      = sgn (sint (0x20000000000001 :: long)) *
        int (round_half_even (nat \<bar>sint (0x20000000000001 :: long)\<bar>)
               (2 ^ (bit_length (nat \<bar>sint (0x20000000000001 :: long)\<bar>) - 53)) *
             2 ^ (bit_length (nat \<bar>sint (0x20000000000001 :: long)\<bar>) - 53)) * 2 ^ 1074"
    using arithmetic_int_and_promotion [of "0x20000000000001" 0 ?w 0] by blast
  have rounded: "d_int (d_of_long 0x20000000000001) = 2 ^ 53 * 2 ^ 1074"
    unfolding rnd n s bl by (simp add: round_half_even_def)
  from q(1) r(1) q3 r1 add trap exact rounded mixed1 mixed2 show ?thesis
    by (simp add: d_of_long_minus_seven d_add_minus_seven_three)
qed

subsection \<open>Printing a list\<close>

lemma print_list_loop_elements:
  assumes "length ss = length hs"
    and "\<forall>i<length hs. \<forall>w. pr (hs ! i) w = Some (Returns (BoolV True) (put (ss ! i) w))"
    and "type_of t \<noteq> ListT"
  shows "print_list_loop pr printed (mk_list hs t) w =
           ret (printed \<or> hs \<noteq> [], t) (put (spaced printed ss) w)"
  using assms
proof (induction hs arbitrary: ss printed w)
  case Nil
  then show ?case by (cases t) (simp_all add: put_Nil)
next
  case (Cons h hs)
  then obtain s ss' where ss: "ss = s # ss'" by (cases ss) auto
  from Cons.prems ss have len: "length ss' = length hs" by simp
  from Cons.prems(2) ss have h: "pr h w' = Some (Returns (BoolV True) (put s w'))" for w'
    by (metis length_Cons nth_Cons_0 zero_less_Suc)
  from Cons.prems(2) ss
  have rest: "\<forall>i<length hs. \<forall>w. pr (hs ! i) w = Some (Returns (BoolV True) (put (ss' ! i) w))"
    by (metis Suc_less_eq length_Cons nth_Cons_Suc)
  have IH: "print_list_loop pr True (mk_list hs t) w' =
      ret (True, t) (put (spaced True ss') w')" for w'
    using Cons.IH [OF len rest Cons.prems(3), of True w'] by simp
  show ?case
    by (simp add: ss h IH put_put)
qed

lemma spaced_snoc:
  "spaced printed (ss @ [s]) = spaced printed ss @ (if printed \<or> ss \<noteq> [] then '' '' else []) @ s"
  by (induction ss arbitrary: printed) simp_all

text \<open>
  The lists that are printed as a bracketed row. Let a list hold the elements \<open>hs\<close> (at
  least one) and end in a tail \<open>t\<close> that is not a list node, and let every element,
  printed on its own, write the text \<open>ss ! i\<close> and return. Then printing the list writes
  \<^verbatim>\<open>[\<close>, the texts of the elements in order separated by one space and, when \<open>t\<close> is not
  \<^verbatim>\<open>Nil\<close>, a space and the text of \<open>t\<close> as one more element, then \<^verbatim>\<open>]\<close>, and returns the true
  marker. Where the elements end within the fuel \<open>fuel\<close>, the list does with any fuel
  above it.
\<close>

lemma noot_print_list:
  "(hs \<noteq> [] \<and> length ss = length hs \<and>
    (\<forall>i<length hs. \<forall>w. noot_print fuel 1 [hs ! i] w = Some (Returns (BoolV True) (put (ss ! i) w))) \<and>
    type_of t \<noteq> ListT \<and>
    (type_of t \<noteq> NilT \<longrightarrow> (\<forall>w. noot_print fuel 1 [t] w = Some (Returns (BoolV True) (put st w)))) \<and>
    fuel < fuel'
    \<longrightarrow>
    noot_print fuel' 1 [mk_list hs t] w =
      Some (Returns (BoolV True)
        (put (''['' @ spaced False (ss @ (if type_of t = NilT then [] else [st])) @ '']'') w)))"
proof (intro impI, elim conjE)
  let ?pr = "\<lambda>v. noot_print fuel 1 [v]"
  assume ne: "hs \<noteq> []" and len: "length ss = length hs"
    and elems: "\<forall>i<length hs. \<forall>w. noot_print fuel 1 [hs ! i] w = Some (Returns (BoolV True) (put (ss ! i) w))"
    and t: "type_of t \<noteq> ListT"
    and tail: "type_of t \<noteq> NilT \<longrightarrow> (\<forall>w. noot_print fuel 1 [t] w = Some (Returns (BoolV True) (put st w)))"
    and fuel: "fuel < fuel'"
  from ne obtain a b where ml: "mk_list hs t = ListV a b" by (cases hs) auto
  from ne len have ss_ne: "ss \<noteq> []" by auto
  have loop: "print_list_loop ?pr False (ListV a b) w' = ret (True, t) (put (spaced False ss) w')" for w'
    using print_list_loop_elements [of ss hs ?pr t False w'] len elems t ne by (simp add: ml)
  have switch: "print_switch ?pr (mk_list hs t) w =
      ret () (put (''['' @ spaced False (ss @ (if type_of t = NilT then [] else [st])) @ '']'') w)"
  proof (cases "type_of t = NilT")
    case True
    then show ?thesis
      by (simp add: ml loop bind_opt_ret put_put)
  next
    case False
    with tail have "noot_print fuel 1 [t] w' = Some (Returns (BoolV True) (put st w'))" for w'
      by simp
    with False ss_ne show ?thesis
      by (simp add: ml loop bind_opt_ret put_put spaced_snoc)
  qed
  have "noot_print (Suc fuel) 1 [mk_list hs t] w =
      Some (Returns (BoolV True)
        (put (''['' @ spaced False (ss @ (if type_of t = NilT then [] else [st])) @ '']'') w))"
    by (simp add: read_arg_def switch bind_opt_ret) (simp add: ret_def)
  moreover from fuel have "Suc fuel \<le> fuel'" by simp
  ultimately show "noot_print fuel' 1 [mk_list hs t] w =
      Some (Returns (BoolV True)
        (put (''['' @ spaced False (ss @ (if type_of t = NilT then [] else [st])) @ '']'') w))"
    by (rule noot_print_fuel_mono)
qed

text \<open>
  The two lists of the claim: \<^verbatim>\<open>1, 2, 3\<close> ending in \<^verbatim>\<open>Nil\<close> prints as \<^verbatim>\<open>[1 2 3]\<close>, and
  ending in the integer \<^verbatim>\<open>4\<close> as \<^verbatim>\<open>[1 2 3 4]\<close>.
\<close>

lemma noot_print_list_examples:
  "noot_print 2 1 [ListV (Some (IntV 1)) (Some (ListV (Some (IntV 2)) (Some (ListV (Some (IntV 3)) (Some NilV)))))]
      \<lparr>stdout = [], call_stack = []\<rparr>
     = Some (Returns (BoolV True) \<lparr>stdout = ''[1 2 3]'', call_stack = []\<rparr>) \<and>
   noot_print 2 1 [ListV (Some (IntV 1)) (Some (ListV (Some (IntV 2)) (Some (ListV (Some (IntV 3)) (Some (IntV 4))))))]
      \<lparr>stdout = [], call_stack = []\<rparr>
     = Some (Returns (BoolV True) \<lparr>stdout = ''[1 2 3 4]'', call_stack = []\<rparr>)"
proof -
  let ?w = "\<lparr>stdout = [], call_stack = []\<rparr>"
  let ?hs = "[IntV 1, IntV 2, IntV 3]"
  let ?ss = "[''1'', ''2'', ''3'']"
  have elems: "\<forall>i<length ?hs. \<forall>w. noot_print (Suc 0) 1 [?hs ! i] w = Some (Returns (BoolV True) (put (?ss ! i) w))"
    by (auto simp: numeral_3_eq_3 less_Suc_eq noot_print_int printf_d_small
        simp del: noot_print.simps)
  have four: "\<forall>w. noot_print (Suc 0) 1 [IntV 4] w = Some (Returns (BoolV True) (put ''4'' w))"
    by (simp add: noot_print_int printf_d_small del: noot_print.simps)
  have a: "noot_print (Suc (Suc 0)) 1 [mk_list ?hs NilV] ?w = Some (Returns (BoolV True) (put ''[1 2 3]'' ?w))"
    using noot_print_list [of ?hs ?ss "Suc 0" NilV "[]" "Suc (Suc 0)" ?w] elems by simp
  have b: "noot_print (Suc (Suc 0)) 1 [mk_list ?hs (IntV 4)] ?w = Some (Returns (BoolV True) (put ''[1 2 3 4]'' ?w))"
    using noot_print_list [of ?hs ?ss "Suc 0" "IntV 4" "''4''" "Suc (Suc 0)" ?w] elems four by simp
  from a b show ?thesis
    by (simp add: put_def numeral_2_eq_2 del: noot_print.simps)
qed

text \<open>
  A call that returns has returned from each of its steps, and the loop over a list
  that ends in a node with a null head stops at that node.
\<close>

lemma bind_opt_Returns:
  assumes "bind_opt m f = Some (Returns y w')"
  obtains x w1 where "m = Some (Returns x w1)" "f x w1 = Some (Returns y w')"
proof (cases m)
  case None
  with assms show ?thesis by simp
next
  case (Some r)
  with assms that show ?thesis by (cases r) simp_all
qed

lemma print_list_loop_stops_at_empty_node:
  assumes "print_list_loop pr printed (mk_list hs (ListV None t)) w = Some (Returns (p, cur) w1)"
  shows "cur = ListV None t"
  using assms
proof (induction hs arbitrary: printed w)
  case Nil
  then show ?case by (simp add: ret_def)
next
  case (Cons h hs)
  from Cons.prems obtain x w2 where
    "print_list_loop pr True (mk_list hs (ListV None t)) w2 = Some (Returns (p, cur) w1)"
    by (auto elim!: bind_opt_Returns)
  then show ?case by (rule Cons.IH)
qed

text \<open>
  C6, at the list where the code departs from it. The empty list that is a node with a
  null head (and every list of elements that ends in such a node) is not printed as a
  bracketed row: the loop over the elements stops at the node, which is of type
  \<^verbatim>\<open>List\<close> and so not \<^verbatim>\<open>Nil\<close>, and the printer calls itself on that same node. On the
  node alone the call does not end, whatever the fuel; on a list that ends in the
  node the call never returns, so no closing \<^verbatim>\<open>]\<close> follows the elements.
\<close>

theorem noot_print_empty_list_never_returns:
  "noot_print fuel 1 [ListV None t] w = None \<and>
   noot_print fuel 1 [mk_list hs (ListV None t)] w \<noteq> Some (Returns v w')"
proof
  show "noot_print fuel 1 [ListV None t] w = None"
    by (rule noot_print_empty_node_diverges)
  show "noot_print fuel 1 [mk_list hs (ListV None t)] w \<noteq> Some (Returns v w')"
  proof
    assume ret: "noot_print fuel 1 [mk_list hs (ListV None t)] w = Some (Returns v w')"
    then obtain f where fuel: "fuel = Suc f" by (cases fuel) simp_all
    let ?pr = "\<lambda>v. noot_print f 1 [v]"
    obtain a b where ml: "mk_list hs (ListV None t) = ListV a b" by (cases hs) auto
    from ret obtain u w2 where
      "print_switch ?pr (ListV a b) w = Some (Returns u w2)"
      unfolding fuel ml by (auto simp: read_arg_def elim!: bind_opt_Returns)
    then obtain p cur w1 where
      loop: "print_list_loop ?pr False (ListV a b) (put ''['' w) = Some (Returns (p, cur) w1)"
      and rest: "bind_opt
            (if type_of cur \<noteq> NilT then
               bind_opt (?pr cur (if p then put '' '' w1 else w1)) (\<lambda>_. ret ())
             else ret () w1)
            (\<lambda>_ w2. ret () (put '']'' w2)) = Some (Returns u w2)"
      by (auto elim!: bind_opt_Returns)
    from loop have "cur = ListV None t"
      unfolding ml [symmetric] by (rule print_list_loop_stops_at_empty_node)
    with rest show False
      by (simp add: noot_print_empty_node_diverges del: noot_print.simps)
  qed
qed

theorem noot_print_empty_list_never_returns_witness:
  "noot_print 3 1 [ListV None (Some NilV)] \<lparr>stdout = [], call_stack = []\<rparr> = None \<and>
   noot_print 3 1 [ListV (Some (IntV 1)) (Some (ListV None (Some NilV)))]
       \<lparr>stdout = [], call_stack = []\<rparr>
     \<noteq> Some (Returns (BoolV True) \<lparr>stdout = ''[1]'', call_stack = []\<rparr>)"
  using noot_print_empty_list_never_returns [of 3 "Some NilV" "\<lparr>stdout = [], call_stack = []\<rparr>"
      "[IntV 1]" "BoolV True" "\<lparr>stdout = ''[1]'', call_stack = []\<rparr>"]
  by (simp del: noot_print.simps)

subsection \<open>Assertion\<close>

lemma noot_panic_never_returns: "noot_panic fuel c a w \<noteq> Some (Returns x w')"
proof (cases "noot_println fuel c a (put ([newline] @ ''Noot panicked:'' @ [newline]) w)")
  case None
  then show ?thesis by (simp add: noot_panic_def)
next
  case (Some r)
  then show ?thesis by (cases r) (simp_all add: noot_panic_def noot_panic_impl_def)
qed

lemma bind_opt_never_returns:
  fixes m :: "NootValue result option"
  assumes "\<And>x w'. m \<noteq> Some (Returns x w')"
  shows "bind_opt (bind_opt m (\<lambda>_. ret ())) (\<lambda>_. ret (val :: NootValue)) = m"
proof (cases m)
  case None
  then show ?thesis by simp
next
  case (Some r)
  with assms show ?thesis by (cases r) auto
qed

lemma print_string_boom: "print_string ''boom'' w = Returns () (put ''boom'' w)"
  by (simp add: print_string_def printf_field_def)

lemma noot_panic_boom:
  "noot_panic (Suc fuel) 1 [StringV ''boom''] w =
     Some (Exits (print_trace (call_stack w) (length (call_stack w))
       (put (newline # ''Noot panicked:'' @ newline # ''boom'' @ [newline, newline]) w)))"
  by (simp add: noot_panic_def noot_println_def read_arg_def print_string_boom bind_opt_ret
      noot_panic_impl_def put_put call_stack_put)

lemma noot_is_true_table:
  "noot_is_true v \<longleftrightarrow> (case v of BoolV b \<Rightarrow> b | NilV \<Rightarrow> False | ErrorV e \<Rightarrow> False | _ \<Rightarrow> True)"
  by (cases v) (simp_all add: noot_is_true_def)

lemma noot_assert_truthy:
  "1 \<le> count \<Longrightarrow> noot_is_true v \<Longrightarrow> noot_assert fuel count (v # rest) w = Some (Returns v w)"
  by (simp add: noot_assert_def read_arg_def bind_opt_ret) (simp add: ret_def)

lemma noot_assert_falsy_rest:
  assumes "2 \<le> count" "\<not> noot_is_true v"
  shows "noot_assert fuel count (v # rest) w = noot_panic fuel (count - 1) rest w"
proof -
  from assms(1) have "1 \<le> count" by (simp add: word_le_nat_alt)
  with assms show ?thesis
    by (simp add: noot_assert_def read_arg_def bind_opt_never_returns noot_panic_never_returns)
qed

lemma noot_assert_falsy_self:
  "count = 1 \<Longrightarrow> \<not> noot_is_true v \<Longrightarrow>
     noot_assert fuel count (v # rest) w = noot_panic fuel count (v # rest) w"
  by (simp add: noot_assert_def read_arg_def bind_opt_never_returns noot_panic_never_returns
      word_le_nat_alt)

lemma noot_assert_no_args: "noot_assert fuel 0 args w = noot_panic fuel 0 args w"
  by (simp add: noot_assert_def noot_is_true_def bind_opt_never_returns noot_panic_never_returns)

lemma noot_assert_false_boom:
  "noot_assert (Suc fuel) 2 [BoolV False, StringV ''boom''] w =
     Some (Exits (print_trace (call_stack w) (length (call_stack w))
       (put (newline # ''Noot panicked:'' @ newline # ''boom'' @ [newline, newline]) w)))"
  using noot_assert_falsy_rest [of 2 "BoolV False" "Suc fuel" "[StringV ''boom'']" w]
    noot_panic_boom [of fuel w]
  by (simp add: noot_is_true_def)

text \<open>
  C8. Truthiness: a \<^verbatim>\<open>Bool\<close> is its own value, \<^verbatim>\<open>Nil\<close> and \<^verbatim>\<open>Error\<close> are false, every other
  discriminant is true. \<^verbatim>\<open>noot_assert\<close> on a condition that is true returns it, the
  world unchanged. On a condition that is false it is \<^verbatim>\<open>noot_panic\<close> on the remaining
  arguments when the count is two or more, and \<^verbatim>\<open>noot_panic\<close> on the condition itself when
  the count is one (or zero, the condition then being \<^verbatim>\<open>Nil\<close>); \<^verbatim>\<open>noot_panic\<close> never returns
  a value. So \<^verbatim>\<open>assert(false, "boom")\<close> ends
  the process having printed the panic banner, \<^verbatim>\<open>boom\<close> and the trace, and
  \<^verbatim>\<open>assert(true)\<close> returns true.
\<close>

theorem noot_assert_spec:
  "(noot_is_true v \<longleftrightarrow> (case v of BoolV b \<Rightarrow> b | NilV \<Rightarrow> False | ErrorV e \<Rightarrow> False | _ \<Rightarrow> True)) \<and>
   (1 \<le> count \<and> noot_is_true v \<longrightarrow> noot_assert fuel count (v # rest) w = Some (Returns v w)) \<and>
   (2 \<le> count \<and> \<not> noot_is_true v \<longrightarrow>
      noot_assert fuel count (v # rest) w = noot_panic fuel (count - 1) rest w) \<and>
   (count = 1 \<and> \<not> noot_is_true v \<longrightarrow>
      noot_assert fuel count (v # rest) w = noot_panic fuel count (v # rest) w) \<and>
   noot_assert fuel 0 rest w = noot_panic fuel 0 rest w \<and>
   (\<forall>c a x w'. noot_panic fuel c a w \<noteq> Some (Returns x w')) \<and>
   noot_assert (Suc fuel) 2 [BoolV False, StringV ''boom''] w =
     Some (Exits (print_trace (call_stack w) (length (call_stack w))
       (put (newline # ''Noot panicked:'' @ newline # ''boom'' @ [newline, newline]) w))) \<and>
   noot_assert fuel 1 [BoolV True] w = Some (Returns (BoolV True) w)"
  using noot_is_true_table [of v] noot_assert_truthy [of count v fuel rest w]
    noot_assert_falsy_rest [of count v fuel rest w] noot_assert_falsy_self [of count v fuel rest w]
    noot_panic_never_returns [of fuel _ _ w] noot_assert_false_boom [of fuel w]
    noot_assert_truthy [of 1 "BoolV True" fuel "[]" w] noot_assert_no_args [of fuel rest w]
  by (simp add: noot_is_true_def)

theorem noot_assert_spec_witness:
  "noot_assert 1 2 [BoolV False, StringV ''boom''] \<lparr>stdout = [], call_stack = [''main'']\<rparr> =
     Some (Exits \<lparr>stdout = [CHR 0x0A] @ ''Noot panicked:'' @ [CHR 0x0A] @ ''boom'' @ [CHR 0x0A, CHR 0x0A]
                           @ ''at main'' @ [CHR 0x0A],
                  call_stack = [''main'']\<rparr>) \<and>
   noot_assert 1 1 [BoolV True] \<lparr>stdout = [], call_stack = [''main'']\<rparr> =
     Some (Returns (BoolV True) \<lparr>stdout = [], call_stack = [''main'']\<rparr>) \<and>
   noot_assert 1 1 [IntV 0] \<lparr>stdout = [], call_stack = [''main'']\<rparr> =
     Some (Returns (IntV 0) \<lparr>stdout = [], call_stack = [''main'']\<rparr>)"
  using noot_assert_spec [of "IntV 0" 1 0 "[]" "\<lparr>stdout = [], call_stack = [''main'']\<rparr>"]
    noot_assert_spec [of "IntV 0" 1 1 "[]" "\<lparr>stdout = [], call_stack = [''main'']\<rparr>"]
  by (simp add: put_def noot_is_true_def)


subsection \<open>Missing arguments\<close>

text \<open>
  The primitives that read their arguments by the count read \<^verbatim>\<open>Nil\<close> for an argument
  the count does not cover. With a count of zero \<^verbatim>\<open>noot_print\<close> prints \<^verbatim>\<open>nil\<close> and returns
  the true marker (and \<^verbatim>\<open>noot_println\<close>, \<^verbatim>\<open>noot_panic\<close> print \<^verbatim>\<open>nil\<close> through it),
  \<^verbatim>\<open>noot_not\<close> returns true, and \<^verbatim>\<open>noot_assert\<close> takes \<^verbatim>\<open>Nil\<close> as its condition and panics.
  Each of the eleven wrappers made by \<^verbatim>\<open>bin_fn\<close> applies its operator to \<^verbatim>\<open>Nil\<close> and \<^verbatim>\<open>Nil\<close>
  with a count of zero, and to the first argument and \<^verbatim>\<open>Nil\<close> with a count of one.
\<close>

lemma nil_for_missing_arguments:
  "noot_print (Suc fuel) 0 args w = Some (Returns (BoolV True) (put ''nil'' w)) \<and>
   noot_println (Suc fuel) 0 args w = Some (Returns (BoolV True) (put (''nil'' @ [newline]) w)) \<and>
   noot_not 0 args w = Returns (BoolV True) w \<and>
   noot_assert fuel 0 args w = noot_panic fuel 0 args w \<and>
   noot_panic (Suc fuel) 0 args w =
     Some (Exits (print_trace (call_stack w) (length (call_stack w))
       (put (newline # ''Noot panicked:'' @ newline # ''nil'' @ [newline, newline]) w))) \<and>
   bin_fn f 0 args w = f NilV NilV w \<and>
   bin_fn f 1 (x # rest) w = f x NilV w \<and>
   noot_add_fn 0 args w = noot_add NilV NilV w \<and> noot_add_fn 1 (x # rest) w = noot_add x NilV w \<and>
   noot_sub_fn 0 args w = noot_sub NilV NilV w \<and> noot_sub_fn 1 (x # rest) w = noot_sub x NilV w \<and>
   noot_mul_fn 0 args w = noot_mul NilV NilV w \<and> noot_mul_fn 1 (x # rest) w = noot_mul x NilV w \<and>
   noot_div_fn 0 args w = noot_div NilV NilV w \<and> noot_div_fn 1 (x # rest) w = noot_div x NilV w \<and>
   noot_rem_fn 0 args w = noot_rem NilV NilV w \<and> noot_rem_fn 1 (x # rest) w = noot_rem x NilV w \<and>
   noot_eq_fn 0 args w = noot_eq NilV NilV w \<and> noot_eq_fn 1 (x # rest) w = noot_eq x NilV w \<and>
   noot_neq_fn 0 args w = noot_neq NilV NilV w \<and> noot_neq_fn 1 (x # rest) w = noot_neq x NilV w \<and>
   noot_lt_fn 0 args w = noot_lt NilV NilV w \<and> noot_lt_fn 1 (x # rest) w = noot_lt x NilV w \<and>
   noot_le_fn 0 args w = noot_le NilV NilV w \<and> noot_le_fn 1 (x # rest) w = noot_le x NilV w \<and>
   noot_gt_fn 0 args w = noot_gt NilV NilV w \<and> noot_gt_fn 1 (x # rest) w = noot_gt x NilV w \<and>
   noot_ge_fn 0 args w = noot_ge NilV NilV w \<and> noot_ge_fn 1 (x # rest) w = noot_ge x NilV w"
proof -
  have b0: "bin_fn f 0 args w = f NilV NilV w" for f
    by (simp add: bin_fn_def)
  have b1: "bin_fn f 1 (x # rest) w = f x NilV w" for f
    by (simp add: bin_fn_def read_arg_def word_le_nat_alt)
  have pr: "noot_print (Suc fuel) 0 args w' = Some (Returns (BoolV True) (put ''nil'' w'))" for w'
    by (rule noot_print_no_args)
  have ln: "noot_println (Suc fuel) 0 args w' = Some (Returns (BoolV True) (put (''nil'' @ [newline]) w'))" for w'
    by (simp add: noot_println_def pr put_put del: noot_print.simps) (simp add: ret_def)
  have nt: "noot_not 0 args w = Returns (BoolV True) w"
    by (simp add: noot_not_def)
  have pn: "noot_panic (Suc fuel) 0 args w =
     Some (Exits (print_trace (call_stack w) (length (call_stack w))
       (put (newline # ''Noot panicked:'' @ newline # ''nil'' @ [newline, newline]) w)))"
    by (simp add: noot_panic_def ln put_put noot_panic_impl_def call_stack_put del: noot_print.simps)
  have as: "noot_assert fuel 0 args w = noot_panic fuel 0 args w"
    by (rule noot_assert_no_args)
  show ?thesis
    by (simp add: b0 b1 pr ln nt pn as noot_add_fn_def noot_sub_fn_def noot_mul_fn_def
        noot_div_fn_def noot_rem_fn_def noot_eq_fn_def noot_neq_fn_def noot_lt_fn_def
        noot_le_fn_def noot_gt_fn_def noot_ge_fn_def del: noot_print.simps)
qed


lemma nil_for_missing_arguments_example:
  "noot_print 1 0 [] \<lparr>stdout = [], call_stack = []\<rparr>
     = Some (Returns (BoolV True) \<lparr>stdout = ''nil'', call_stack = []\<rparr>) \<and>
   noot_not 0 [] \<lparr>stdout = [], call_stack = []\<rparr>
     = Returns (BoolV True) \<lparr>stdout = [], call_stack = []\<rparr> \<and>
   noot_eq_fn 0 [] \<lparr>stdout = [], call_stack = []\<rparr>
     = Returns (BoolV True) \<lparr>stdout = [], call_stack = []\<rparr> \<and>
   noot_eq_fn 1 [IntV 5] \<lparr>stdout = [], call_stack = []\<rparr>
     = Returns (BoolV False) \<lparr>stdout = [], call_stack = []\<rparr> \<and>
   noot_add_fn 1 [IntV 5] \<lparr>stdout = [], call_stack = []\<rparr>
     = Exits \<lparr>stdout = ''Attempted to add incompatible types int and nil'' @ [CHR 0x0A],
              call_stack = []\<rparr>"
  using nil_for_missing_arguments [of 0 "[]" "\<lparr>stdout = [], call_stack = []\<rparr>" noot_add "IntV 5" "[]"]
  by (simp add: put_def noot_eq_def pure_result_def noot_add_def noot_binary_type_panic_def
      noot_panic_impl_def del: noot_print.simps)


text \<open>
  C10, at the primitive that departs from it. \<^verbatim>\<open>noot_error\<close> has the signature of the
  variadic primitives and does not read its count: with a count of zero it wraps
  whatever its argument pointer addresses, not \<^verbatim>\<open>Nil\<close>, and where the pointer addresses no
  value the \<^verbatim>\<open>Error\<close> it builds has no payload.
\<close>

theorem noot_error_ignores_count:
  "noot_error 0 (v # rest) w = Returns (ErrorV v) w \<and>
   noot_error 0 [] w = Undefined \<and>
   noot_error 0 [IntV 5] w \<noteq> Returns (ErrorV NilV) w"
  by (simp add: noot_error_def read_arg_def)

theorem noot_error_ignores_count_witness:
  "noot_error 0 [IntV 5] \<lparr>stdout = [], call_stack = []\<rparr>
     = Returns (ErrorV (IntV 5)) \<lparr>stdout = [], call_stack = []\<rparr>"
  using noot_error_ignores_count [of "IntV 5" "[]" "\<lparr>stdout = [], call_stack = []\<rparr>"]
  by simp

subsection \<open>Printing numbers\<close>

lemma d_zero_fields: "d_mag 0 = 0" "\<not> d_isnan 0" "\<not> d_isinf 0" "\<not> d_sign 0"
  by (simp_all add: d_isnan_def d_isinf_def d_exp_def d_frac_def d_sign_def d_mag_def)

lemma round_half_even_zero: "round_half_even 0 d = 0"
  by (simp add: round_half_even_def)

lemma show_nat_zero: "show_nat 0 = ''0''"
  by (simp add: show_nat.simps digit_def)

lemma replicate_5: "replicate 5 x = [x, x, x, x, x]"
  by (simp add: numeral_eq_Suc)

lemma sprintf_f_zero: "sprintf_f 0 = ''0.000000''"
  by (simp add: sprintf_f_def d_zero_fields round_half_even_zero show_nat_zero replicate_5)

lemma strip_loop_zero: "strip_loop ''0.000000'' 7 = None"
  by (simp add: strip_loop.simps)

text \<open>
  For a normal double below \<open>2\<^sup>5\<^sup>3\<close> in magnitude the rounding of \<open>sprintf_f\<close> is a
  rounding of the 53-bit significand.
\<close>

lemma scaled_mag:
  assumes "1 \<le> d_exp d" "d_exp d \<le> 1075"
  shows "round_half_even (d_mag d * 10 ^ 6) (2 ^ 1074) =
         round_half_even ((2 ^ 52 + d_frac d) * 10 ^ 6) (2 ^ (1075 - d_exp d))"
proof -
  let ?k = "2 ^ (d_exp d - 1) :: nat"
  have "d_mag d * 10 ^ 6 = ((2 ^ 52 + d_frac d) * 10 ^ 6) * ?k"
    using assms by (simp add: d_mag_def)
  moreover have "(2 ^ 1074 :: nat) = 2 ^ (1075 - d_exp d) * ?k"
    using assms by (simp flip: power_add)
  ultimately show ?thesis
    using round_half_even_cancel [of ?k "(2 ^ 52 + d_frac d) * 10 ^ 6" "2 ^ (1075 - d_exp d)"]
    by simp
qed

lemma three_fields: "d_exp 0x4008000000000000 = 1024" "d_frac 0x4008000000000000 = 2 ^ 51"
  "\<not> d_sign 0x4008000000000000"
  by (simp_all add: d_exp_def d_frac_def d_sign_def)

lemma sprintf_f_three: "sprintf_f 0x4008000000000000 = ''3.000000''"
proof -
  have "round_half_even (d_mag 0x4008000000000000 * 10 ^ 6) (2 ^ 1074) =
      round_half_even ((2 ^ 52 + 2 ^ 51) * 10 ^ 6) (2 ^ 51)"
    using scaled_mag [of "0x4008000000000000"] by (simp only: three_fields) simp
  then have n: "round_half_even (d_mag 0x4008000000000000 * 10 ^ 6) (2 ^ 1074) = 3000000"
    by (simp add: round_half_even_def)
  have s: "show_nat 3 = ''3''" "show_nat 0 = ''0''"
    by (simp_all add: show_nat.simps digit_def)
  show ?thesis
    unfolding sprintf_f_def n
    by (simp add: d_isnan_def d_isinf_def three_fields s replicate_5)
qed

lemma pi_fields: "d_exp 0x40091EB851EB851F = 1024" "d_frac 0x40091EB851EB851F = 0x91EB851EB851F"
  "\<not> d_sign 0x40091EB851EB851F"
  by (simp_all add: d_exp_def d_frac_def d_sign_def)

lemma sprintf_f_3_14: "sprintf_f 0x40091EB851EB851F = ''3.140000''"
proof -
  have "round_half_even (d_mag 0x40091EB851EB851F * 10 ^ 6) (2 ^ 1074) =
      round_half_even ((2 ^ 52 + 0x91EB851EB851F) * 10 ^ 6) (2 ^ 51)"
    using scaled_mag [of "0x40091EB851EB851F"] by (simp only: pi_fields) simp
  then have n: "round_half_even (d_mag 0x40091EB851EB851F * 10 ^ 6) (2 ^ 1074) = 3140000"
    by (simp add: round_half_even_def)
  have s: "show_nat 3 = ''3''" "show_nat 140000 = ''140000''"
    by (simp_all add: show_nat.simps digit_def)
  show ?thesis
    unfolding sprintf_f_def n
    by (simp add: d_isnan_def d_isinf_def pi_fields s replicate_5)
qed

lemma strip_three: "strip_loop ''3.000000'' 7 = Some 0"
  by (simp add: strip_loop.simps)

lemma strip_3_14: "strip_loop ''3.140000'' 7 = Some 3"
  by (simp add: strip_loop.simps)

lemma noot_print_real_three:
  "noot_print (Suc fuel) 1 [RealV 0x4008000000000000] w = Some (Returns (BoolV True) (put ''3'' w))"
  by (simp add: read_arg_def print_real_def sprintf_f_three strip_three printf_field_def ret_def)

lemma noot_print_real_3_14:
  "noot_print (Suc fuel) 1 [RealV 0x40091EB851EB851F] w = Some (Returns (BoolV True) (put ''3.14'' w))"
  by (simp add: read_arg_def print_real_def sprintf_f_3_14 strip_3_14 printf_field_def ret_def)

lemma noot_print_int_three:
  "noot_print (Suc fuel) 1 [IntV 3] w = Some (Returns (BoolV True) (put ''3'' w))"
  by (simp add: noot_print_int printf_d_small del: noot_print.simps)


lemma hundred_fields: "d_exp 0x4059000000000000 = 1029" "d_frac 0x4059000000000000 = 0x9000000000000"
  "\<not> d_sign 0x4059000000000000"
  by (simp_all add: d_exp_def d_frac_def d_sign_def)

lemma sprintf_f_hundred: "sprintf_f 0x4059000000000000 = ''100.000000''"
proof -
  have "round_half_even (d_mag 0x4059000000000000 * 10 ^ 6) (2 ^ 1074) =
      round_half_even ((2 ^ 52 + 0x9000000000000) * 10 ^ 6) (2 ^ 46)"
    using scaled_mag [of "0x4059000000000000"] by (simp only: hundred_fields) simp
  then have n: "round_half_even (d_mag 0x4059000000000000 * 10 ^ 6) (2 ^ 1074) = 100000000"
    by (simp add: round_half_even_def)
  have s: "show_nat 100 = ''100''" "show_nat 0 = ''0''"
    by (simp_all add: show_nat.simps digit_def)
  show ?thesis
    unfolding sprintf_f_def n
    by (simp add: d_isnan_def d_isinf_def hundred_fields s replicate_5)
qed

lemma noot_print_real_hundred:
  "noot_print (Suc fuel) 1 [RealV 0x4059000000000000] w = Some (Returns (BoolV True) (put ''1'' w))"
proof -
  have "strip_loop ''100.000000'' 9 = Some 0"
    by (simp add: strip_loop.simps)
  then show ?thesis
    by (simp add: read_arg_def print_real_def sprintf_f_hundred printf_field_def ret_def)
qed

lemma strip_loop_Some:
  "strip_loop str i = Some j \<Longrightarrow>
     0 \<le> j \<and> j \<le> i \<and> str ! nat j \<noteq> CHR ''0'' \<and> str ! nat j \<noteq> CHR ''.'' \<and>
     (\<forall>k. j < k \<and> k \<le> i \<longrightarrow> str ! nat k = CHR ''0'' \<or> str ! nat k = CHR ''.'')"
proof (induction str i rule: strip_loop.induct)
  case (1 str i)
  show ?case
  proof (cases "i < 0")
    case True
    with "1.prems" show ?thesis by (simp add: strip_loop.simps)
  next
    case nonneg: False
    show ?thesis
    proof (cases "str ! nat i = CHR ''0'' \<or> str ! nat i = CHR ''.''")
      case True
      with nonneg "1.prems" have "strip_loop str (i - 1) = Some j"
        by (subst (asm) strip_loop.simps) simp
      with "1.IH" nonneg True
      have IH: "0 \<le> j \<and> j \<le> i - 1 \<and> str ! nat j \<noteq> CHR ''0'' \<and> str ! nat j \<noteq> CHR ''.'' \<and>
         (\<forall>k. j < k \<and> k \<le> i - 1 \<longrightarrow> str ! nat k = CHR ''0'' \<or> str ! nat k = CHR ''.'')"
        by blast
      have "str ! nat k = CHR ''0'' \<or> str ! nat k = CHR ''.''" if "j < k" "k \<le> i" for k
      proof (cases "k = i")
        case True
        with \<open>str ! nat i = CHR ''0'' \<or> str ! nat i = CHR ''.''\<close> show ?thesis by simp
      next
        case False
        with that have "k \<le> i - 1" by simp
        with IH that show ?thesis by blast
      qed
      with IH show ?thesis by auto
    next
      case False
      with nonneg "1.prems" have "j = i"
        by (subst (asm) strip_loop.simps) simp
      with nonneg False show ?thesis by auto
    qed
  qed
qed

lemma strip_loop_None:
  "strip_loop str i = None \<longleftrightarrow>
     (\<forall>k. 0 \<le> k \<and> k \<le> i \<longrightarrow> str ! nat k = CHR ''0'' \<or> str ! nat k = CHR ''.'')"
proof (induction str i rule: strip_loop.induct)
  case (1 str i)
  show ?case
  proof (cases "i < 0")
    case True
    then have "strip_loop str i = None" by (simp add: strip_loop.simps)
    moreover from True have "\<not> (0 \<le> k \<and> k \<le> i)" for k by linarith
    ultimately show ?thesis by blast
  next
    case nonneg: False
    show ?thesis
    proof (cases "str ! nat i = CHR ''0'' \<or> str ! nat i = CHR ''.''")
      case True
      with nonneg have "strip_loop str i = strip_loop str (i - 1)"
        by (subst strip_loop.simps) simp
      moreover from "1.IH" nonneg True
      have "strip_loop str (i - 1) = None \<longleftrightarrow>
         (\<forall>k. 0 \<le> k \<and> k \<le> i - 1 \<longrightarrow> str ! nat k = CHR ''0'' \<or> str ! nat k = CHR ''.'')"
        by blast
      moreover have "(\<forall>k. 0 \<le> k \<and> k \<le> i - 1 \<longrightarrow> str ! nat k = CHR ''0'' \<or> str ! nat k = CHR ''.'')
          \<longleftrightarrow> (\<forall>k. 0 \<le> k \<and> k \<le> i \<longrightarrow> str ! nat k = CHR ''0'' \<or> str ! nat k = CHR ''.'')"
      proof
        assume a: "\<forall>k. 0 \<le> k \<and> k \<le> i - 1 \<longrightarrow> str ! nat k = CHR ''0'' \<or> str ! nat k = CHR ''.''"
        show "\<forall>k. 0 \<le> k \<and> k \<le> i \<longrightarrow> str ! nat k = CHR ''0'' \<or> str ! nat k = CHR ''.''"
        proof (intro allI impI)
          fix k assume k: "0 \<le> k \<and> k \<le> i"
          show "str ! nat k = CHR ''0'' \<or> str ! nat k = CHR ''.''"
          proof (cases "k = i")
            case True with \<open>str ! nat i = CHR ''0'' \<or> str ! nat i = CHR ''.''\<close> show ?thesis by simp
          next
            case False with k have "k \<le> i - 1" by simp
            with a k show ?thesis by blast
          qed
        qed
      next
        assume "\<forall>k. 0 \<le> k \<and> k \<le> i \<longrightarrow> str ! nat k = CHR ''0'' \<or> str ! nat k = CHR ''.''"
        then show "\<forall>k. 0 \<le> k \<and> k \<le> i - 1 \<longrightarrow> str ! nat k = CHR ''0'' \<or> str ! nat k = CHR ''.''"
          by simp
      qed
      ultimately show ?thesis by simp
    next
      case False
      with nonneg have "strip_loop str i = Some i"
        by (subst strip_loop.simps) simp
      moreover from nonneg False
      have "\<exists>k. 0 \<le> k \<and> k \<le> i \<and> \<not> (str ! nat k = CHR ''0'' \<or> str ! nat k = CHR ''.'')"
        by (intro exI [of _ i]) simp
      ultimately show ?thesis by auto
    qed
  qed
qed

text \<open>The text of \<^verbatim>\<open>%f\<close> holds no NUL, so a field cut from it is a prefix of it.\<close>

lemma digit_not_NUL: "n < 10 \<Longrightarrow> digit n \<noteq> NUL"
proof -
  assume "n < 10"
  then have "n \<in> {0, 1, 2, 3, 4, 5, 6, 7, 8, 9}" by auto
  then show ?thesis by (auto simp: digit_def)
qed

lemma show_nat_no_NUL: "NUL \<notin> set (show_nat n)"
proof (induction n rule: show_nat.induct)
  case (1 n)
  show ?case
  proof (cases "n < 10")
    case True
    then show ?thesis
      using digit_not_NUL [of n] by (subst show_nat.simps) auto
  next
    case False
    with "1.IH" have "NUL \<notin> set (show_nat (n div 10))" by simp
    moreover have "digit (n mod 10) \<noteq> NUL" by (rule digit_not_NUL) simp
    ultimately show ?thesis
      using False by (subst show_nat.simps) auto
  qed
qed

lemma sprintf_f_no_NUL: "NUL \<notin> set (sprintf_f r)"
  using show_nat_no_NUL by (auto simp: sprintf_f_def Let_def)

lemma printf_field_prefix:
  assumes "NUL \<notin> set s" "n \<le> length s"
  shows "printf_field n n s = take n s"
proof -
  have tw: "takeWhile (\<lambda>c. c \<noteq> NUL) (take n s) = take n s"
    using assms(1) by (auto simp: takeWhile_eq_all_conv dest: in_set_takeD)
  show ?thesis
    unfolding printf_field_def Let_def tw using assms(2) by simp
qed

lemma print_real_strips:
  assumes "length (sprintf_f r) < 50" "sprintf_f r \<noteq> []"
  shows "(\<forall>c \<in> set (sprintf_f r). c = CHR ''0'' \<or> c = CHR ''.'') \<and> print_real r w = Undefined \<or>
         (\<exists>j < length (sprintf_f r).
            sprintf_f r ! j \<noteq> CHR ''0'' \<and> sprintf_f r ! j \<noteq> CHR ''.'' \<and>
            (\<forall>k. j < k \<and> k < length (sprintf_f r) \<longrightarrow>
                 sprintf_f r ! k = CHR ''0'' \<or> sprintf_f r ! k = CHR ''.'') \<and>
            print_real r w = Returns () (put (take (Suc j) (sprintf_f r)) w))"
proof -
  let ?str = "sprintf_f r"
  let ?i = "int (length ?str) - 1"
  from assms have len: "0 < length ?str" by simp
  show ?thesis
  proof (cases "strip_loop ?str ?i")
    case None
    then have all: "\<forall>k. 0 \<le> k \<and> k \<le> ?i \<longrightarrow> ?str ! nat k = CHR ''0'' \<or> ?str ! nat k = CHR ''.''"
      by (simp add: strip_loop_None)
    have "c = CHR ''0'' \<or> c = CHR ''.''" if "c \<in> set ?str" for c
    proof -
      from that obtain n where n: "n < length ?str" "?str ! n = c"
        by (auto simp: in_set_conv_nth)
      with all have "?str ! nat (int n) = CHR ''0'' \<or> ?str ! nat (int n) = CHR ''.''"
        by (intro all [rule_format]) auto
      with n show ?thesis by simp
    qed
    moreover from None assms len have "print_real r w = Undefined"
      by (simp add: print_real_def Let_def)
    ultimately show ?thesis by blast
  next
    case (Some j)
    from strip_loop_Some [OF Some]
    have j: "0 \<le> j" "j \<le> ?i" "?str ! nat j \<noteq> CHR ''0''" "?str ! nat j \<noteq> CHR ''.''"
      and after: "\<forall>k. j < k \<and> k \<le> ?i \<longrightarrow> ?str ! nat k = CHR ''0'' \<or> ?str ! nat k = CHR ''.''"
      by blast+
    from j have lt: "nat j < length ?str" by auto
    have "?str ! k = CHR ''0'' \<or> ?str ! k = CHR ''.''" if "nat j < k" "k < length ?str" for k
      using after [rule_format, of "int k"] that j by auto
    moreover from Some assms len j have "print_real r w =
        Returns () (put (printf_field (Suc (nat j)) (Suc (nat j)) ?str) w)"
      by (simp add: print_real_def Let_def nat_add_distrib)
    with lt have "print_real r w = Returns () (put (take (Suc (nat j)) ?str) w)"
      by (simp add: printf_field_prefix sprintf_f_no_NUL del: NUL_def)
    ultimately show ?thesis using lt j by blast
  qed
qed

text \<open>
  C4, at the input where the code leaves it. The claim holds on its three examples
  (\<open>noot_print_int_three\<close>, \<open>noot_print_real_three\<close>, \<open>noot_print_real_3_14\<close>) and wherever
  the text of \<^verbatim>\<open>%f\<close> has a character other than \<^verbatim>\<open>0\<close> and \<^verbatim>\<open>.\<close> (\<open>print_real_strips\<close>). For the
  \<^verbatim>\<open>Real\<close> zero the text is \<^verbatim>\<open>0.000000\<close>: the loop finds no character to stop at, steps
  below index 0 and reads \<^verbatim>\<open>str[-1]\<close>, so the call is undefined instead of printing a
  stripped text.
\<close>

theorem noot_print_real_zero_undefined:
  "noot_print (Suc fuel) 1 [RealV 0] w = Some Undefined"
  by (simp add: read_arg_def print_real_def sprintf_f_zero strip_loop_zero)

theorem noot_print_real_zero_undefined_witness:
  "noot_print 1 1 [RealV 0] \<lparr>stdout = [], call_stack = []\<rparr> = Some Undefined"
  using noot_print_real_zero_undefined [of 0 "\<lparr>stdout = [], call_stack = []\<rparr>"]
  by (simp del: noot_print.simps)


end
